theory Spec2Isabelle
  imports Complex_Main "HOL-Library.Sublist"
begin

section \<open>Data model of the scripts\<close>

text \<open>
  The repository is a set of TypeScript scripts driving the Bags SDK: a fee-sharing token
  launch (\<^verbatim>\<open>launchWithFeeShare\<close>), a basic launch (\<^verbatim>\<open>launchToken\<close>), partner-key
  creation (\<^verbatim>\<open>createPartnerKey\<close>) and fee claiming (\<^verbatim>\<open>claimAll\<close>). The SDK and the
  ledger are outside the repository; the model takes them as a record of oracles and
  records every SDK call the scripts make, in order, with its outcome.

  A \<^verbatim>\<open>PublicKey\<close> is its base58 text. A basis-point share is a JavaScript
  \<^verbatim>\<open>number\<close>; the model uses \<open>int\<close>, which agrees with JavaScript addition as long as
  the shares and their partial sums are integers below \<open>2 ^ 53\<close> in magnitude.
\<close>

type_synonym PublicKey = string

datatype SupportedSocialProvider = Twitter | Kick | Github

record Keypair =
  publicKey :: PublicKey

text \<open>
  A \<^verbatim>\<open>VersionedTransaction\<close>: the blockhash the scripts read
  (\<^verbatim>\<open>message.recentBlockhash\<close>), an opaque body, and the signers added by
  \<^verbatim>\<open>tx.sign\<close>.
\<close>

record VersionedTransaction =
  recentBlockhash :: string
  body :: string
  signers :: "PublicKey list"

text \<open>\<^verbatim>\<open>interface FeeClaimer\<close>: every field but \<^verbatim>\<open>bps\<close> is optional.\<close>

record FeeClaimer =
  wallet :: "PublicKey option"
  username :: "string option"
  provider :: "SupportedSocialProvider option"
  bps :: int

text \<open>An entry of \<^verbatim>\<open>resolvedClaimers\<close>: \<^verbatim>\<open>{ user: PublicKey; userBps: number }\<close>.\<close>

record ResolvedClaimer =
  user :: PublicKey
  userBps :: int

text \<open>
  The parameter object of \<^verbatim>\<open>sdk.config.createBagsFeeShareConfig\<close>, as the SDK
  reference of the repository documents it: the partner wallet and its config address are
  optional fields beside the fee claimers.
\<close>

record FeeShareConfigParams =
  payer :: PublicKey
  baseMint :: PublicKey
  configClaimers :: "ResolvedClaimer list"
  partner :: "PublicKey option"
  partnerConfig :: "PublicKey option"
  additionalLookupTables :: "PublicKey list option"

text \<open>What \<^verbatim>\<open>createBagsFeeShareConfig\<close> returns; both lists may be absent.\<close>

record FeeShareConfigResult =
  meteoraConfigKey :: PublicKey
  transactions :: "VersionedTransaction list option"
  bundles :: "VersionedTransaction list list option"

text \<open>What \<^verbatim>\<open>getConfigCreationLookupTableTransactions\<close> returns.\<close>

record LookupTableResult =
  creationTransaction :: VersionedTransaction
  extendTransactions :: "VersionedTransaction list"
  lutAddresses :: "PublicKey list"

text \<open>The argument of \<^verbatim>\<open>createTokenInfoAndMetadata\<close>.\<close>

record TokenInfo =
  infoImageUrl :: string
  infoName :: string
  infoSymbol :: string
  infoDescription :: string
  infoTwitter :: "string option"
  infoWebsite :: "string option"
  infoTelegram :: "string option"

text \<open>The argument of \<^verbatim>\<open>createLaunchTransaction\<close>.\<close>

record LaunchTransactionParams =
  metadataUrl :: string
  tokenMint :: PublicKey
  launchWallet :: PublicKey
  initialBuyLamports :: real
  configKey :: PublicKey

text \<open>
  The parameters of the two launch functions: \<^verbatim>\<open>launchToken\<close> has a
  \<^verbatim>\<open>telegram\<close> link, \<^verbatim>\<open>launchWithFeeShare\<close> has the fee claimers.
\<close>

record TokenParams =
  name :: string
  symbol :: string
  description :: string
  imageUrl :: string
  initialBuySol :: real
  twitter :: "string option"
  website :: "string option"

record LaunchTokenParams = TokenParams +
  telegram :: "string option"

record LaunchWithFeeShareParams = TokenParams +
  feeClaimers :: "FeeClaimer list"

text \<open>What both launch functions return.\<close>

record LaunchResult =
  resultMint :: string
  resultMetadata :: string
  bundleId :: string

text \<open>
  A claimable position, as \<^verbatim>\<open>getAllClaimablePositions\<close> lists it; the claiming loop
  reads \<^verbatim>\<open>baseMint\<close> only.
\<close>

record ClaimablePosition =
  positionMint :: string
  virtualPoolAddress :: string

text \<open>What \<^verbatim>\<open>getPartnerConfig\<close> returns.\<close>

record PartnerConfig =
  partnerWallet :: PublicKey
  partnerBps :: int
  totalClaimedFees :: int

section \<open>Errors, SDK calls and the history of a run\<close>

text \<open>
  The three \<^verbatim>\<open>throw new Error(...)\<close> of the scripts, and a rejection coming out of an
  SDK call with its \<^verbatim>\<open>message\<close> (which may be missing).
\<close>

datatype error =
  TotalBpsError int
  | FeeClaimerShapeError
  | MissingBlockhashError
  | SdkError "string option"

text \<open>
  Where a transaction is submitted from. The SDK does not see this label; it names the
  statement of the script that submits.
\<close>

datatype site =
  LutCreation
  | LutExtend
  | ConfigBundle
  | ConfigTransaction
  | LaunchBundle
  | PartnerKeyCreation
  | ClaimTransaction

datatype call =
  CreateTokenInfoAndMetadata TokenInfo
  | GetLaunchWalletV2 string SupportedSocialProvider
  | GetConfigCreationLookupTableTransactions PublicKey PublicKey "ResolvedClaimer list"
  | SignAndSendTransaction site VersionedTransaction "string option"
  | WaitForSlotsToPass nat
  | CreateBagsFeeShareConfig FeeShareConfigParams
  | GetJitoRecentFees
  | CreateTipTransaction PublicKey int string
  | SendBundleAndConfirm site "VersionedTransaction list"
  | CreateLaunchTransaction LaunchTransactionParams
  | GetPartnerConfig PublicKey
  | GetPartnerConfigCreationTransaction PublicKey
  | GetAllClaimablePositions PublicKey
  | GetClaimTransaction PublicKey ClaimablePosition

text \<open>An event is a call with its outcome: \<open>True\<close> when it returned, \<open>False\<close> when it threw.\<close>

datatype event = Ev call bool

type_synonym history = "event list"

text \<open>
  A script is a function from the history before it to its outcome and the history after
  it. An \<^verbatim>\<open>await\<close> sequence is \<open>bindP\<close>; a \<^verbatim>\<open>throw\<close> is \<open>throwP\<close>.
\<close>

type_synonym 'a prog = "history \<Rightarrow> (error + 'a) \<times> history"

definition returnP :: "'a \<Rightarrow> 'a prog" where
  "returnP x h = (Inr x, h)"

definition throwP :: "error \<Rightarrow> 'a prog" where
  "throwP e h = (Inl e, h)"

definition bindP :: "'a prog \<Rightarrow> ('a \<Rightarrow> 'b prog) \<Rightarrow> 'b prog" where
  "bindP m f h = (case m h of (Inl e, h') \<Rightarrow> (Inl e, h') | (Inr x, h') \<Rightarrow> f x h')"

text \<open>\<^verbatim>\<open>try { m } catch (e) { f e }\<close>.\<close>

definition catchP :: "'a prog \<Rightarrow> (error \<Rightarrow> 'a prog) \<Rightarrow> 'a prog" where
  "catchP m f h = (case m h of (Inl e, h') \<Rightarrow> f e h' | (Inr x, h') \<Rightarrow> (Inr x, h'))"

text \<open>
  An SDK call: the oracle answers from the history so far (so an answer may depend on
  everything submitted before), and the call is appended to the history with its outcome.
\<close>

definition callSdk :: "call \<Rightarrow> (history \<Rightarrow> string option + 'a) \<Rightarrow> 'a prog" where
  "callSdk c oracle h =
     (case oracle h of
        Inl msg \<Rightarrow> (Inl (SdkError msg), h @ [Ev c False])
      | Inr x \<Rightarrow> (Inr x, h @ [Ev c True]))"

text \<open>\<^verbatim>\<open>for (const x of xs) { await f(x) }\<close>: the first throw ends the loop.\<close>

fun forEachP :: "('a \<Rightarrow> unit prog) \<Rightarrow> 'a list \<Rightarrow> unit prog" where
  "forEachP f [] = returnP ()"
| "forEachP f (x # xs) = bindP (f x) (\<lambda>_. forEachP f xs)"

text \<open>
  The SDK and the ledger behind it. Every method is an oracle on the history; a rejected
  promise is \<open>Inl\<close> with the rejection's message.
  \<open>deriveBagsFeeShareV2PartnerConfigPda\<close> is synchronous and computes an address from a
  wallet, so it is a function of the wallet alone.
  \<open>getJitoRecentFees\<close> answers \<open>None\<close> when the fees object or its
  \<^verbatim>\<open>landed_tips_95th_percentile\<close> is missing.
\<close>

record SDK =
  createTokenInfoAndMetadata :: "history \<Rightarrow> TokenInfo \<Rightarrow> string option + (string \<times> string)"
  getLaunchWalletV2 :: "history \<Rightarrow> string \<Rightarrow> SupportedSocialProvider \<Rightarrow> string option + PublicKey"
  getConfigCreationLookupTableTransactions ::
    "history \<Rightarrow> PublicKey \<Rightarrow> PublicKey \<Rightarrow> ResolvedClaimer list \<Rightarrow> string option + LookupTableResult"
  signAndSendTransaction ::
    "history \<Rightarrow> VersionedTransaction \<Rightarrow> string option \<Rightarrow> string option + string"
  waitForSlotsToPass :: "history \<Rightarrow> nat \<Rightarrow> string option + unit"
  createBagsFeeShareConfig :: "history \<Rightarrow> FeeShareConfigParams \<Rightarrow> string option + FeeShareConfigResult"
  getJitoRecentFees :: "history \<Rightarrow> string option + real option"
  createTipTransaction :: "history \<Rightarrow> PublicKey \<Rightarrow> int \<Rightarrow> string \<Rightarrow> string option + VersionedTransaction"
  sendBundleAndConfirm :: "history \<Rightarrow> VersionedTransaction list \<Rightarrow> string option + string"
  createLaunchTransaction :: "history \<Rightarrow> LaunchTransactionParams \<Rightarrow> string option + VersionedTransaction"
  deriveBagsFeeShareV2PartnerConfigPda :: "PublicKey \<Rightarrow> PublicKey"
  getPartnerConfig :: "history \<Rightarrow> PublicKey \<Rightarrow> string option + PartnerConfig"
  getPartnerConfigCreationTransaction ::
    "history \<Rightarrow> PublicKey \<Rightarrow> string option + (VersionedTransaction \<times> string)"
  getAllClaimablePositions :: "history \<Rightarrow> PublicKey \<Rightarrow> string option + ClaimablePosition list"
  getClaimTransaction ::
    "history \<Rightarrow> PublicKey \<Rightarrow> ClaimablePosition \<Rightarrow> string option + VersionedTransaction list"

section \<open>launchWithFeeShare: validation and resolution\<close>

text \<open>
  \<^verbatim>\<open>params.feeClaimers.reduce((sum, fc) => sum + fc.bps, 0)\<close>: a left fold from 0.
  The shares are JavaScript numbers and are read here as integers. The addition of two
  such numbers is the addition of integers as long as both and their sum lie between
  \<^verbatim>\<open>-Number.MAX_SAFE_INTEGER\<close> and \<^verbatim>\<open>Number.MAX_SAFE_INTEGER\<close>; beyond that range the
  script rounds and its total may differ from the one computed here (\<open>safeTotals\<close> below
  names the lists for which it does not).
\<close>

definition totalBps :: "FeeClaimer list \<Rightarrow> int" where
  "totalBps fcs = foldl (\<lambda>sum fc. sum + bps fc) 0 fcs"

text \<open>
  ``Validate BPS'': the one check the script makes on the requested split.
  \<^verbatim>\<open>if (totalBps !== 10000) throw new Error(`Total BPS must equal 10000, got ...`)\<close>
\<close>

definition validateBps :: "FeeClaimer list \<Rightarrow> error + unit" where
  "validateBps fcs =
     (if totalBps fcs \<noteq> 10000 then Inl (TotalBpsError (totalBps fcs)) else Inr ())"

text \<open>
  \<^verbatim>\<open>Number.MAX_SAFE_INTEGER\<close> is \<open>2^53 - 1\<close>. \<open>safeTotals acc fcs\<close>: in the fold that starts
  from \<open>acc\<close>, every share and every running total stays in the safe range, so that each
  addition of the script is exact and \<open>totalBps\<close> is the total the script computes.
\<close>

definition MAX_SAFE_INTEGER :: int where
  "MAX_SAFE_INTEGER = 9007199254740991"

fun safeTotals :: "int \<Rightarrow> FeeClaimer list \<Rightarrow> bool" where
  "safeTotals acc [] = (\<bar>acc\<bar> \<le> MAX_SAFE_INTEGER)"
| "safeTotals acc (fc # fcs) =
     (\<bar>acc\<bar> \<le> MAX_SAFE_INTEGER \<and> \<bar>bps fc\<bar> \<le> MAX_SAFE_INTEGER \<and> safeTotals (acc + bps fc) fcs)"

text \<open>
  ``Step 2'', one claimer: a wallet given directly is taken as it is; otherwise the
  username is looked up, when both username and provider are there (an empty username is
  falsy in JavaScript, like a missing one); otherwise the script throws.
\<close>

definition resolveFeeClaimer :: "SDK \<Rightarrow> FeeClaimer \<Rightarrow> PublicKey prog" where
  "resolveFeeClaimer sdk fc =
     (case wallet fc of
        Some w \<Rightarrow> returnP w
      | None \<Rightarrow>
          (case (username fc, provider fc) of
             (Some u, Some p) \<Rightarrow>
               if u \<noteq> [] then callSdk (GetLaunchWalletV2 u p) (\<lambda>h. getLaunchWalletV2 sdk h u p)
               else throwP FeeClaimerShapeError
           | _ \<Rightarrow> throwP FeeClaimerShapeError))"

text \<open>
  ``Step 2'', the loop: \<^verbatim>\<open>resolvedClaimers.push({ user: wallet, userBps: fc.bps })\<close> for
  each claimer in turn; \<open>acc\<close> is \<^verbatim>\<open>resolvedClaimers\<close> so far.
\<close>

fun resolveFeeClaimers :: "SDK \<Rightarrow> FeeClaimer list \<Rightarrow> ResolvedClaimer list \<Rightarrow> ResolvedClaimer list prog" where
  "resolveFeeClaimers sdk [] acc = returnP acc"
| "resolveFeeClaimers sdk (fc # fcs) acc =
     bindP (resolveFeeClaimer sdk fc)
       (\<lambda>w. resolveFeeClaimers sdk fcs (acc @ [\<lparr>user = w, userBps = bps fc\<rparr>]))"

section \<open>launchWithFeeShare: lookup tables, config, launch\<close>

text \<open>
  Modelled from the spec: the SDK constant \<^verbatim>\<open>BAGS_FEE_SHARE_V2_MAX_CLAIMERS_NON_LUT\<close>
  is imported from the SDK package, which is not part of the repository; the spec and the
  repository's SDK reference both give its value as 15.
\<close>

definition BAGS_FEE_SHARE_V2_MAX_CLAIMERS_NON_LUT :: nat where
  "BAGS_FEE_SHARE_V2_MAX_CLAIMERS_NON_LUT = 15"

definition LAMPORTS_PER_SOL :: int where
  "LAMPORTS_PER_SOL = 1000000000"

text \<open>\<^verbatim>\<open>0.015 * LAMPORTS_PER_SOL\<close>.\<close>

definition FALLBACK_JITO_TIP :: int where
  "FALLBACK_JITO_TIP = 15000000"

text \<open>
  \<^verbatim>\<open>signAndSendTransaction(connection, commitment, tx, keypair)\<close> from a given
  statement, without the optional blockhash argument.
\<close>

definition signAndSend :: "SDK \<Rightarrow> site \<Rightarrow> VersionedTransaction \<Rightarrow> unit prog" where
  "signAndSend sdk s tx =
     bindP (callSdk (SignAndSendTransaction s tx None) (\<lambda>h. signAndSendTransaction sdk h tx None))
       (\<lambda>_. returnP ())"

text \<open>\<^verbatim>\<open>tx.sign([keypair])\<close>.\<close>

definition sign :: "Keypair \<Rightarrow> VersionedTransaction \<Rightarrow> VersionedTransaction" where
  "sign kp tx = tx\<lparr>signers := signers tx @ [publicKey kp]\<rparr>"

text \<open>
  The tip: the fallback, unless \<^verbatim>\<open>getJitoRecentFees\<close> returns a non-zero
  \<^verbatim>\<open>landed_tips_95th_percentile\<close>; a throw of that call is swallowed
  (\<^verbatim>\<open>catch {}\<close>).
\<close>

definition jitoTip :: "SDK \<Rightarrow> int prog" where
  "jitoTip sdk =
     catchP
       (bindP (callSdk GetJitoRecentFees (getJitoRecentFees sdk))
          (\<lambda>jitoFees. returnP
             (case jitoFees of
                Some p \<Rightarrow> if p \<noteq> 0 then \<lfloor>p * real_of_int LAMPORTS_PER_SOL\<rfloor> else FALLBACK_JITO_TIP
              | None \<Rightarrow> FALLBACK_JITO_TIP)))
       (\<lambda>_. returnP FALLBACK_JITO_TIP)"

text \<open>
  \<^verbatim>\<open>sendWithJito\<close>: the blockhash of the first transaction (a missing first transaction
  or an empty blockhash throws), the tip transaction, the signatures, the bundle.
\<close>

definition sendWithJito :: "SDK \<Rightarrow> Keypair \<Rightarrow> site \<Rightarrow> VersionedTransaction list \<Rightarrow> string prog" where
  "sendWithJito sdk kp s txs =
     (case txs of
        [] \<Rightarrow> throwP MissingBlockhashError
      | t # _ \<Rightarrow>
          if recentBlockhash t = [] then throwP MissingBlockhashError
          else
            bindP (jitoTip sdk) (\<lambda>tipLamports.
            bindP (callSdk (CreateTipTransaction (publicKey kp) tipLamports (recentBlockhash t))
                     (\<lambda>h. createTipTransaction sdk h (publicKey kp) tipLamports (recentBlockhash t)))
              (\<lambda>tipTx.
            callSdk (SendBundleAndConfirm s (map (sign kp) (tipTx # txs)))
              (\<lambda>h. sendBundleAndConfirm sdk h (map (sign kp) (tipTx # txs))))))"

text \<open>
  ``Step 3'': lookup tables, when there are more resolved claimers than fit without them:
  the creation transaction, the wait for one slot, then every extend transaction. The
  result is \<^verbatim>\<open>additionalLookupTables\<close>.
\<close>

definition handleLookupTables ::
  "SDK \<Rightarrow> Keypair \<Rightarrow> PublicKey \<Rightarrow> ResolvedClaimer list \<Rightarrow> PublicKey list option prog" where
  "handleLookupTables sdk kp mint resolvedClaimers =
     (if length resolvedClaimers > BAGS_FEE_SHARE_V2_MAX_CLAIMERS_NON_LUT then
        bindP (callSdk (GetConfigCreationLookupTableTransactions (publicKey kp) mint resolvedClaimers)
                 (\<lambda>h. getConfigCreationLookupTableTransactions sdk h (publicKey kp) mint resolvedClaimers))
          (\<lambda>lutResult.
        bindP (signAndSend sdk LutCreation (creationTransaction lutResult)) (\<lambda>_.
        bindP (callSdk (WaitForSlotsToPass 1) (\<lambda>h. waitForSlotsToPass sdk h 1)) (\<lambda>_.
        bindP (forEachP (signAndSend sdk LutExtend) (extendTransactions lutResult)) (\<lambda>_.
        returnP (Some (lutAddresses lutResult))))))
      else returnP None)"

text \<open>
  The transactions of a config result: every bundle through \<^verbatim>\<open>sendWithJito\<close>, then
  every transaction of \<^verbatim>\<open>configResult.transactions || []\<close>.
\<close>

definition sendConfigTransactions :: "SDK \<Rightarrow> Keypair \<Rightarrow> FeeShareConfigResult \<Rightarrow> unit prog" where
  "sendConfigTransactions sdk kp configResult =
     bindP (forEachP (\<lambda>bundle. bindP (sendWithJito sdk kp ConfigBundle bundle) (\<lambda>_. returnP ()))
              (case bundles configResult of None \<Rightarrow> [] | Some bs \<Rightarrow> bs))
       (\<lambda>_. forEachP (signAndSend sdk ConfigTransaction)
              (case transactions configResult of None \<Rightarrow> [] | Some ts \<Rightarrow> ts))"

text \<open>``Step 4'' (``Step 2'' of \<^verbatim>\<open>launchToken\<close>): the config request and its transactions.\<close>

definition createFeeConfig :: "SDK \<Rightarrow> Keypair \<Rightarrow> FeeShareConfigParams \<Rightarrow> FeeShareConfigResult prog" where
  "createFeeConfig sdk kp ps =
     bindP (callSdk (CreateBagsFeeShareConfig ps) (\<lambda>h. createBagsFeeShareConfig sdk h ps))
       (\<lambda>configResult.
     bindP (sendConfigTransactions sdk kp configResult) (\<lambda>_. returnP configResult))"

text \<open>The last two steps of both launch functions: the launch transaction, sent via Jito.\<close>

definition sendLaunch ::
  "SDK \<Rightarrow> Keypair \<Rightarrow> string \<Rightarrow> string \<Rightarrow> real \<Rightarrow> PublicKey \<Rightarrow> LaunchResult prog" where
  "sendLaunch sdk kp mint metadata buySol cfgKey =
     bindP (callSdk
              (CreateLaunchTransaction
                 \<lparr>metadataUrl = metadata, tokenMint = mint, launchWallet = publicKey kp,
                  initialBuyLamports = buySol * real_of_int LAMPORTS_PER_SOL, configKey = cfgKey\<rparr>)
              (\<lambda>h. createLaunchTransaction sdk h
                 \<lparr>metadataUrl = metadata, tokenMint = mint, launchWallet = publicKey kp,
                  initialBuyLamports = buySol * real_of_int LAMPORTS_PER_SOL, configKey = cfgKey\<rparr>))
       (\<lambda>launchTx.
     bindP (sendWithJito sdk kp LaunchBundle [launchTx]) (\<lambda>bundle.
     returnP \<lparr>resultMint = mint, resultMetadata = metadata, bundleId = bundle\<rparr>))"

text \<open>
  \<^verbatim>\<open>params.symbol.toUpperCase().replace("$", "")\<close>, for ASCII letters: upper case, and
  the first dollar sign removed.
\<close>

definition toUpperCase :: "string \<Rightarrow> string" where
  "toUpperCase s =
     map (\<lambda>c. if 97 \<le> (of_char c :: nat) \<and> (of_char c :: nat) \<le> 122
               then char_of ((of_char c :: nat) - 32) else c) s"

definition tokenSymbol :: "string \<Rightarrow> string" where
  "tokenSymbol s = remove1 (CHR ''$'') (toUpperCase s)"

text \<open>
  \<^verbatim>\<open>launchWithFeeShare\<close>. The console output is left out.
\<close>

definition launchWithFeeShare :: "SDK \<Rightarrow> Keypair \<Rightarrow> LaunchWithFeeShareParams \<Rightarrow> LaunchResult prog" where
  "launchWithFeeShare sdk kp params =
     (case validateBps (feeClaimers params) of
        Inl e \<Rightarrow> throwP e
      | Inr _ \<Rightarrow>
          bindP (callSdk
                   (CreateTokenInfoAndMetadata
                      \<lparr>infoImageUrl = imageUrl params, infoName = name params,
                       infoSymbol = tokenSymbol (symbol params), infoDescription = description params,
                       infoTwitter = twitter params, infoWebsite = website params,
                       infoTelegram = None\<rparr>)
                   (\<lambda>h. createTokenInfoAndMetadata sdk h
                      \<lparr>infoImageUrl = imageUrl params, infoName = name params,
                       infoSymbol = tokenSymbol (symbol params), infoDescription = description params,
                       infoTwitter = twitter params, infoWebsite = website params,
                       infoTelegram = None\<rparr>))
            (\<lambda>(mint, metadata).
          bindP (resolveFeeClaimers sdk (feeClaimers params) []) (\<lambda>resolvedClaimers.
          bindP (handleLookupTables sdk kp mint resolvedClaimers) (\<lambda>luts.
          bindP (createFeeConfig sdk kp
                   \<lparr>payer = publicKey kp, baseMint = mint, configClaimers = resolvedClaimers,
                    partner = None, partnerConfig = None, additionalLookupTables = luts\<rparr>)
            (\<lambda>configResult.
          sendLaunch sdk kp mint metadata (initialBuySol params) (meteoraConfigKey configResult))))))"

section \<open>launchToken\<close>

text \<open>\<^verbatim>\<open>launchToken\<close>: all fees to the creator, no lookup tables.\<close>

definition launchToken :: "SDK \<Rightarrow> Keypair \<Rightarrow> LaunchTokenParams \<Rightarrow> LaunchResult prog" where
  "launchToken sdk kp params =
     bindP (callSdk
              (CreateTokenInfoAndMetadata
                 \<lparr>infoImageUrl = imageUrl params, infoName = name params,
                  infoSymbol = tokenSymbol (symbol params), infoDescription = description params,
                  infoTwitter = twitter params, infoWebsite = website params,
                  infoTelegram = telegram params\<rparr>)
              (\<lambda>h. createTokenInfoAndMetadata sdk h
                 \<lparr>infoImageUrl = imageUrl params, infoName = name params,
                  infoSymbol = tokenSymbol (symbol params), infoDescription = description params,
                  infoTwitter = twitter params, infoWebsite = website params,
                  infoTelegram = telegram params\<rparr>))
       (\<lambda>(mint, metadata).
     bindP (createFeeConfig sdk kp
              \<lparr>payer = publicKey kp, baseMint = mint,
               configClaimers = [\<lparr>user = publicKey kp, userBps = 10000\<rparr>],
               partner = None, partnerConfig = None, additionalLookupTables = None\<rparr>)
       (\<lambda>configResult.
     sendLaunch sdk kp mint metadata (initialBuySol params) (meteoraConfigKey configResult)))"

section \<open>createPartnerKey\<close>

text \<open>\<^verbatim>\<open>s.includes(t)\<close>: \<open>t\<close> occurs in \<open>s\<close>.\<close>

fun includesStr :: "string \<Rightarrow> string \<Rightarrow> bool" where
  "includesStr [] t = (t = [])"
| "includesStr (c # cs) t = (prefix t (c # cs) \<or> includesStr cs t)"

text \<open>
  \<^verbatim>\<open>e.message?.includes("not found")\<close>: an error without a message gives
  \<^verbatim>\<open>undefined\<close>, which is falsy. The scripts' own errors carry other messages.
\<close>

fun messageIncludesNotFound :: "error \<Rightarrow> bool" where
  "messageIncludesNotFound (SdkError (Some m)) = includesStr m ''not found''"
| "messageIncludesNotFound _ = False"

text \<open>
  \<^verbatim>\<open>createPartnerKey\<close>. The \<^verbatim>\<open>try\<close> block returns from the function when the
  lookup succeeds; the flag says whether it did. A lookup error other than ``not found''
  is thrown again. The existing config is read for the console output only, which is
  left out.
\<close>

definition createPartnerKey :: "SDK \<Rightarrow> Keypair \<Rightarrow> PublicKey option \<Rightarrow> PublicKey prog" where
  "createPartnerKey sdk kp partnerWalletArg =
     (let wallet = (case partnerWalletArg of Some w \<Rightarrow> w | None \<Rightarrow> publicKey kp);
          partnerConfigPda = deriveBagsFeeShareV2PartnerConfigPda sdk wallet
      in
        bindP (catchP
                 (bindP (callSdk (GetPartnerConfig wallet) (\<lambda>h. getPartnerConfig sdk h wallet))
                    (\<lambda>existing. returnP True))
                 (\<lambda>e. if \<not> messageIncludesNotFound e then throwP e else returnP False))
          (\<lambda>alreadyExists.
             if alreadyExists then returnP partnerConfigPda
             else
               bindP (callSdk (GetPartnerConfigCreationTransaction wallet)
                        (\<lambda>h. getPartnerConfigCreationTransaction sdk h wallet))
                 (\<lambda>(transaction, blockhash).
               bindP (callSdk (SignAndSendTransaction PartnerKeyCreation transaction (Some blockhash))
                        (\<lambda>h. signAndSendTransaction sdk h transaction (Some blockhash)))
                 (\<lambda>signature. returnP partnerConfigPda))))"

section \<open>claimAll\<close>

text \<open>The body of the \<^verbatim>\<open>try\<close> block: the claim transactions of one position, each sent.\<close>

definition claimPosition :: "SDK \<Rightarrow> PublicKey \<Rightarrow> ClaimablePosition \<Rightarrow> unit prog" where
  "claimPosition sdk w position =
     bindP (callSdk (GetClaimTransaction w position) (\<lambda>h. getClaimTransaction sdk h w position))
       (\<lambda>txs. forEachP (signAndSend sdk ClaimTransaction) txs)"

text \<open>
  The loop over the positions, with \<^verbatim>\<open>successCount\<close> and \<^verbatim>\<open>failCount\<close>: the
  \<^verbatim>\<open>catch\<close> counts the failure and the loop goes on.
\<close>

fun claimLoop ::
  "SDK \<Rightarrow> PublicKey \<Rightarrow> ClaimablePosition list \<Rightarrow> nat \<Rightarrow> nat \<Rightarrow> (nat \<times> nat) prog" where
  "claimLoop sdk w [] successCount failCount = returnP (successCount, failCount)"
| "claimLoop sdk w (position # positions) successCount failCount =
     bindP (catchP (bindP (claimPosition sdk w position) (\<lambda>_. returnP (successCount + 1, failCount)))
              (\<lambda>e. returnP (successCount, failCount + 1)))
       (\<lambda>(s, f). claimLoop sdk w positions s f)"

text \<open>
  \<^verbatim>\<open>claimAll\<close>. The function returns nothing; the model returns what its last line
  prints, the two counts, or \<open>None\<close> when it stops at ``No claimable positions''.
\<close>

definition claimAll :: "SDK \<Rightarrow> Keypair \<Rightarrow> PublicKey option \<Rightarrow> (nat \<times> nat) option prog" where
  "claimAll sdk kp walletArg =
     (let w = (case walletArg of Some w' \<Rightarrow> w' | None \<Rightarrow> publicKey kp) in
        bindP (callSdk (GetAllClaimablePositions w) (\<lambda>h. getAllClaimablePositions sdk h w))
          (\<lambda>positions.
             if length positions = 0 then returnP None
             else bindP (claimLoop sdk w positions 0 0) (\<lambda>counts. returnP (Some counts))))"

section \<open>Example inputs\<close>

definition demoKeypair :: Keypair where
  "demoKeypair = \<lparr>publicKey = ''Creator''\<rparr>"

definition walletClaimer :: "PublicKey \<Rightarrow> int \<Rightarrow> FeeClaimer" where
  "walletClaimer w n = \<lparr>wallet = Some w, username = None, provider = None, bps = n\<rparr>"

definition socialClaimer :: "string \<Rightarrow> SupportedSocialProvider \<Rightarrow> int \<Rightarrow> FeeClaimer" where
  "socialClaimer u p n = \<lparr>wallet = None, username = Some u, provider = Some p, bps = n\<rparr>"

definition demoParams :: "FeeClaimer list \<Rightarrow> LaunchWithFeeShareParams" where
  "demoParams fcs =
     \<lparr>name = ''Shared Token'', symbol = ''$SHARE'', description = ''A token with fee sharing'',
      imageUrl = ''https://example.com/token.png'', initialBuySol = 1 / 100,
      twitter = None, website = None, feeClaimers = fcs\<rparr>"

definition demoTx :: "string \<Rightarrow> VersionedTransaction" where
  "demoTx b = \<lparr>recentBlockhash = ''hash'', body = b, signers = []\<rparr>"

text \<open>Whether a partner-key creation for the wallet was sent and accepted before.\<close>

definition partnerKeyCreated :: "PublicKey \<Rightarrow> history \<Rightarrow> bool" where
  "partnerKeyCreated w h =
     list_ex (\<lambda>e. case e of
                Ev (SignAndSendTransaction PartnerKeyCreation tx bh) b \<Rightarrow> b \<and> body tx = ''partner-'' @ w
              | _ \<Rightarrow> False) h"

text \<open>
  A small SDK: the username \<open>ghost\<close> has no linked wallet, the claim transaction of the
  position \<open>B\<close> is rejected, and a partner config exists once its creation was sent.
\<close>

definition demoSdk :: SDK where
  "demoSdk =
     \<lparr>createTokenInfoAndMetadata = (\<lambda>h info. Inr (''Mint'', ''ipfs://metadata'')),
      getLaunchWalletV2 =
        (\<lambda>h u p. if u = ''ghost'' then Inl (Some ''Account not found'') else Inr (''wallet-'' @ u)),
      getConfigCreationLookupTableTransactions =
        (\<lambda>h p m rs. Inr \<lparr>creationTransaction = demoTx ''lut-create'',
                          extendTransactions = [demoTx ''lut-extend-1'', demoTx ''lut-extend-2''],
                          lutAddresses = [''Lut'']\<rparr>),
      signAndSendTransaction =
        (\<lambda>h tx bh. if body tx = ''claim-B'' then Inl (Some ''Transaction failed'') else Inr ''signature''),
      waitForSlotsToPass = (\<lambda>h n. Inr ()),
      createBagsFeeShareConfig =
        (\<lambda>h ps. Inr \<lparr>meteoraConfigKey = ''ConfigKey'', transactions = Some [demoTx ''config''],
                      bundles = None\<rparr>),
      getJitoRecentFees = (\<lambda>h. Inr None),
      createTipTransaction = (\<lambda>h p n bh. Inr (demoTx ''tip'')),
      sendBundleAndConfirm = (\<lambda>h txs. Inr ''bundle''),
      createLaunchTransaction = (\<lambda>h ps. Inr (demoTx ''launch'')),
      deriveBagsFeeShareV2PartnerConfigPda = (\<lambda>w. ''pda-'' @ w),
      getPartnerConfig =
        (\<lambda>h w. if partnerKeyCreated w h
                then Inr \<lparr>partnerWallet = w, partnerBps = 2500, totalClaimedFees = 0\<rparr>
                else Inl (Some ''Partner config not found'')),
      getPartnerConfigCreationTransaction = (\<lambda>h w. Inr (demoTx (''partner-'' @ w), ''hash'')),
      getAllClaimablePositions =
        (\<lambda>h w. Inr [\<lparr>positionMint = ''A'', virtualPoolAddress = ''PoolA''\<rparr>,
                     \<lparr>positionMint = ''B'', virtualPoolAddress = ''PoolB''\<rparr>,
                     \<lparr>positionMint = ''C'', virtualPoolAddress = ''PoolC''\<rparr>]),
      getClaimTransaction = (\<lambda>h w p. Inr [demoTx (''claim-'' @ positionMint p)])\<rparr>"

section \<open>Properties of a history\<close>

fun outcome :: "event \<Rightarrow> bool" where
  "outcome (Ev c b) = b"

text \<open>
  The settling rule of lookup tables. An extension is a transaction submitted by the
  extend loop. A history is settled when it holds an accepted table creation and, later,
  a completed wait for one slot. The rule: whatever comes before an extension is settled.
\<close>

fun extendCall :: "call \<Rightarrow> bool" where
  "extendCall (SignAndSendTransaction LutExtend tx bh) = True"
| "extendCall _ = False"

fun isExtend :: "event \<Rightarrow> bool" where
  "isExtend (Ev c b) = extendCall c"

definition settled :: "history \<Rightarrow> bool" where
  "settled tr =
     (\<exists>a c d ctx. tr = a @ Ev (SignAndSendTransaction LutCreation ctx None) True # c
                        @ Ev (WaitForSlotsToPass 1) True # d)"

definition extendsAfterSettling :: "history \<Rightarrow> bool" where
  "extendsAfterSettling tr = (\<forall>pre e post. tr = pre @ e # post \<and> isExtend e \<longrightarrow> settled pre)"

text \<open>
  The stages of a launch: metadata and identity lookups (0), the lookup-table plan and
  the table creation (1), the wait (2), the table extensions (3), the config request and
  its transactions (4), the launch transaction and its bundle (5). The calls that prepare
  a Jito bundle (recent fees, tip transaction) belong to whatever bundle they prepare and
  have no stage of their own.
\<close>

fun callStage :: "call \<Rightarrow> nat option" where
  "callStage (CreateTokenInfoAndMetadata i) = Some 0"
| "callStage (GetLaunchWalletV2 u p) = Some 0"
| "callStage (GetConfigCreationLookupTableTransactions a m rs) = Some 1"
| "callStage (SignAndSendTransaction LutCreation tx bh) = Some 1"
| "callStage (WaitForSlotsToPass n) = Some 2"
| "callStage (SignAndSendTransaction LutExtend tx bh) = Some 3"
| "callStage (CreateBagsFeeShareConfig ps) = Some 4"
| "callStage (SignAndSendTransaction ConfigTransaction tx bh) = Some 4"
| "callStage (SendBundleAndConfirm ConfigBundle txs) = Some 4"
| "callStage (CreateLaunchTransaction ps) = Some 5"
| "callStage (SendBundleAndConfirm LaunchBundle txs) = Some 5"
| "callStage _ = None"

fun stage :: "event \<Rightarrow> nat option" where
  "stage (Ev c b) = callStage c"

definition stages :: "history \<Rightarrow> nat list" where
  "stages tr = List.map_filter stage tr"

fun isLaunchSubmission :: "event \<Rightarrow> bool" where
  "isLaunchSubmission (Ev (SendBundleAndConfirm LaunchBundle txs) b) = True"
| "isLaunchSubmission _ = False"

fun isConfigCreated :: "event \<Rightarrow> bool" where
  "isConfigCreated (Ev (CreateBagsFeeShareConfig ps) b) = b"
| "isConfigCreated _ = False"

fun isConfigSubmission :: "event \<Rightarrow> bool" where
  "isConfigSubmission (Ev (SignAndSendTransaction ConfigTransaction tx bh) b) = True"
| "isConfigSubmission (Ev (SendBundleAndConfirm ConfigBundle txs) b) = True"
| "isConfigSubmission _ = False"

text \<open>
  The order of a launch: the stages never go back, and a submitted launch bundle means
  that the config request returned and that every config transaction and bundle
  submitted was accepted.
\<close>

definition launchOrdered :: "history \<Rightarrow> bool" where
  "launchOrdered tr =
     (sorted (stages tr) \<and>
      (list_ex isLaunchSubmission tr \<longrightarrow>
         list_ex isConfigCreated tr \<and> list_all (\<lambda>e. isConfigSubmission e \<longrightarrow> outcome e) tr))"

text \<open>
  A resolved entry keeps the share of its claimer, and the wallet when the claimer gave
  one.
\<close>

definition keptShare :: "FeeClaimer \<Rightarrow> ResolvedClaimer \<Rightarrow> bool" where
  "keptShare fc r = (userBps r = bps fc \<and> (case wallet fc of Some w \<Rightarrow> user r = w | None \<Rightarrow> True))"



text \<open>The calls of the lookup-table step.\<close>

fun lutCall :: "call \<Rightarrow> bool" where
  "lutCall (GetConfigCreationLookupTableTransactions p m rs) = True"
| "lutCall (SignAndSendTransaction LutCreation tx bh) = True"
| "lutCall (SignAndSendTransaction LutExtend tx bh) = True"
| "lutCall _ = False"

fun isLutEvent :: "event \<Rightarrow> bool" where
  "isLutEvent (Ev c b) = lutCall c"

text \<open>
  The positions a claiming run attempted, in order (each attempt starts with the request
  for the claim transactions of the position), and the number of calls that threw.
\<close>

fun attempt :: "event \<Rightarrow> ClaimablePosition option" where
  "attempt (Ev (GetClaimTransaction w p) b) = Some p"
| "attempt _ = None"

definition attempts :: "history \<Rightarrow> ClaimablePosition list" where
  "attempts tr = List.map_filter attempt tr"

definition failures :: "history \<Rightarrow> nat" where
  "failures tr = length (filter (\<lambda>e. \<not> outcome e) tr)"

section \<open>A program logic over histories\<close>

text \<open>
  \<open>triple h0 P m Q E\<close>: started after \<open>h0\<close> and a further history satisfying \<open>P\<close>, the
  script \<open>m\<close> ends with a further history satisfying \<open>Q\<close> when it returns and \<open>E\<close> when it
  throws. The histories are counted from \<open>h0\<close>, the history before the whole run.
\<close>

definition triple ::
  "history \<Rightarrow> (history \<Rightarrow> bool) \<Rightarrow> 'a prog \<Rightarrow> ('a \<Rightarrow> history \<Rightarrow> bool) \<Rightarrow> (history \<Rightarrow> bool) \<Rightarrow> bool" where
  "triple h0 P m Q E =
     (\<forall>tr. P tr \<longrightarrow>
        (case m (h0 @ tr) of
           (Inr x, h') \<Rightarrow> \<exists>tr'. h' = h0 @ tr' \<and> Q x tr'
         | (Inl e, h') \<Rightarrow> \<exists>tr'. h' = h0 @ tr' \<and> E tr'))"

text \<open>
  An invariant \<open>I\<close> with exit condition \<open>E\<close> is closed under a set of calls when a throw
  without a call leaves from \<open>I\<close> to \<open>E\<close>, a returning call keeps \<open>I\<close>, and a throwing call
  leads to \<open>E\<close>; the throw of \<open>getJitoRecentFees\<close> is swallowed, so it keeps \<open>I\<close>.
\<close>

definition closed :: "(call \<Rightarrow> bool) \<Rightarrow> (history \<Rightarrow> bool) \<Rightarrow> (history \<Rightarrow> bool) \<Rightarrow> bool" where
  "closed fp I E =
     ((\<forall>tr. I tr \<longrightarrow> E tr) \<and>
      (\<forall>tr c. I tr \<and> fp c \<longrightarrow>
         I (tr @ [Ev c True]) \<and>
         (if c = GetJitoRecentFees then I (tr @ [Ev c False]) else E (tr @ [Ev c False]))))"

text \<open>The calls each part of a launch can make.\<close>

fun jitoCall :: "site \<Rightarrow> call \<Rightarrow> bool" where
  "jitoCall s GetJitoRecentFees = True"
| "jitoCall s (CreateTipTransaction pk n bh) = True"
| "jitoCall s (SendBundleAndConfirm s' txs) = (s' = s)"
| "jitoCall s _ = False"

fun sendCall :: "site \<Rightarrow> call \<Rightarrow> bool" where
  "sendCall s (SignAndSendTransaction s' tx bh) = (s' = s \<and> bh = None)"
| "sendCall s _ = False"

fun resolveCall :: "call \<Rightarrow> bool" where
  "resolveCall (GetLaunchWalletV2 u p) = True"
| "resolveCall _ = False"

fun configCall :: "call \<Rightarrow> bool" where
  "configCall (SignAndSendTransaction s tx bh) = (s = ConfigTransaction \<and> bh = None)"
| "configCall c = jitoCall ConfigBundle c"

fun launchCall :: "call \<Rightarrow> bool" where
  "launchCall (CreateLaunchTransaction ps) = True"
| "launchCall c = jitoCall LaunchBundle c"

fun preCall :: "call \<Rightarrow> bool" where
  "preCall (CreateTokenInfoAndMetadata i) = True"
| "preCall c = resolveCall c"

fun configCreateCall :: "call \<Rightarrow> bool" where
  "configCreateCall (CreateBagsFeeShareConfig ps) = True"
| "configCreateCall _ = False"

text \<open>
  The invariant of the launch order up to stage \<open>k\<close>; \<open>cfg\<close> says that the config request
  has returned.
\<close>

definition invL :: "nat \<Rightarrow> bool \<Rightarrow> history \<Rightarrow> bool" where
  "invL k cfg tr =
     (sorted (stages tr) \<and> (\<forall>n \<in> set (stages tr). n \<le> k) \<and>
      list_all (\<lambda>e. isConfigSubmission e \<longrightarrow> outcome e) tr \<and>
      (cfg \<longrightarrow> list_ex isConfigCreated tr))"

text \<open>Invariants of the lookup-table decision and of the claiming loop.\<close>

definition lutFree :: "nat \<Rightarrow> history \<Rightarrow> bool" where
  "lutFree n tr = (15 < n \<or> list_all (\<lambda>e. \<not> isLutEvent e) tr)"

definition startsWithPlan :: "PublicKey \<Rightarrow> PublicKey \<Rightarrow> ResolvedClaimer list \<Rightarrow> history \<Rightarrow> bool" where
  "startsWithPlan p m rs tr =
     (\<exists>b tr'. tr = Ev (GetConfigCreationLookupTableTransactions p m rs) b # tr')"

definition claimed :: "ClaimablePosition list \<Rightarrow> nat \<Rightarrow> history \<Rightarrow> bool" where
  "claimed ps f tr = (attempts tr = ps \<and> failures tr = f)"

section \<open>Completed steps and the causes of a failure\<close>

text \<open>
  The calls of a lookup-table step that ran to its end: the plan request, the creation
  transaction, the wait for one slot and every extend transaction of the plan in turn,
  each of them returned.
\<close>

definition lutEvents :: "Keypair \<Rightarrow> PublicKey \<Rightarrow> ResolvedClaimer list \<Rightarrow> LookupTableResult \<Rightarrow> history" where
  "lutEvents kp mint rs lut =
     [Ev (GetConfigCreationLookupTableTransactions (publicKey kp) mint rs) True,
      Ev (SignAndSendTransaction LutCreation (creationTransaction lut) None) True,
      Ev (WaitForSlotsToPass 1) True]
     @ map (\<lambda>tx. Ev (SignAndSendTransaction LutExtend tx None) True) (extendTransactions lut)"

text \<open>
  A config request \<open>ps\<close> in the history \<open>tr\<close> of a run that started at \<open>h\<close> is batched
  when \<open>tr\<close> holds a completed lookup-table step for the mint and the claimers of the
  request, with the plan the SDK answered at that point, and the request carries the
  table addresses of that plan as \<^verbatim>\<open>additionalLookupTables\<close>.
\<close>

definition batched :: "SDK \<Rightarrow> Keypair \<Rightarrow> history \<Rightarrow> history \<Rightarrow> FeeShareConfigParams \<Rightarrow> bool" where
  "batched sdk kp h tr ps =
     (\<exists>pre post lut.
        tr = pre @ lutEvents kp (baseMint ps) (configClaimers ps) lut @ post \<and>
        getConfigCreationLookupTableTransactions sdk (h @ pre) (publicKey kp) (baseMint ps)
          (configClaimers ps) = Inr lut \<and>
        additionalLookupTables ps = Some (lutAddresses lut))"

text \<open>A history without a config request.\<close>

fun isConfigRequest :: "event \<Rightarrow> bool" where
  "isConfigRequest (Ev c b) = configCreateCall c"

definition noRequest :: "history \<Rightarrow> bool" where
  "noRequest tr = list_all (\<lambda>e. \<not> isConfigRequest e) tr"

text \<open>
  What the lookup-table step has done when it returns \<open>luts\<close>: with more than 15 claimers
  the history ends with a completed step and \<open>luts\<close> are the addresses of its plan; with
  15 or fewer \<open>luts\<close> is \<^verbatim>\<open>undefined\<close>.
\<close>

definition lutOut ::
  "SDK \<Rightarrow> Keypair \<Rightarrow> history \<Rightarrow> PublicKey \<Rightarrow> ResolvedClaimer list \<Rightarrow> PublicKey list option \<Rightarrow> history \<Rightarrow> bool" where
  "lutOut sdk kp h mint rs luts tr =
     ((15 < length rs \<longrightarrow>
         (\<exists>pre lut. tr = pre @ lutEvents kp mint rs lut \<and>
            getConfigCreationLookupTableTransactions sdk (h @ pre) (publicKey kp) mint rs = Inr lut \<and>
            luts = Some (lutAddresses lut))) \<and>
      (length rs \<le> 15 \<longrightarrow> luts = None))"

text \<open>
  Every config request of a run for \<open>n\<close> fee claimers: batched when \<open>n\<close> is more than 15,
  without lookup tables otherwise.
\<close>

definition requestsBatched :: "SDK \<Rightarrow> Keypair \<Rightarrow> history \<Rightarrow> nat \<Rightarrow> history \<Rightarrow> bool" where
  "requestsBatched sdk kp h n tr =
     (\<forall>ps b. Ev (CreateBagsFeeShareConfig ps) b \<in> set tr \<longrightarrow>
        (15 < n \<longrightarrow> batched sdk kp h tr ps) \<and> (n \<le> 15 \<longrightarrow> additionalLookupTables ps = None))"

text \<open>
  What an accepted config submission carried: the transactions of a config bundle (the
  bundle without the tip transaction in front) or a single config transaction.
\<close>

fun configSubmitted :: "event \<Rightarrow> (VersionedTransaction list + VersionedTransaction) option" where
  "configSubmitted (Ev (SendBundleAndConfirm ConfigBundle txs) b) = (if b then Some (Inl (tl txs)) else None)"
| "configSubmitted (Ev (SignAndSendTransaction ConfigTransaction tx bh) b) = (if b then Some (Inr tx) else None)"
| "configSubmitted _ = None"

text \<open>
  A call that returned, or the fee estimate, whose failure \<^verbatim>\<open>sendWithJito\<close> catches.
\<close>

fun okOrFees :: "event \<Rightarrow> bool" where
  "okOrFees (Ev c b) = (b \<or> c = GetJitoRecentFees)"

text \<open>
  The calls \<open>mid\<close> submitted all of the config answer \<open>cr\<close>: the accepted config
  submissions are every bundle of the answer, signed, and then every transaction of the
  answer, in that order; no call threw (the fee estimate apart); and no launch bundle was
  submitted among them.
\<close>

definition configSent :: "Keypair \<Rightarrow> FeeShareConfigResult \<Rightarrow> history \<Rightarrow> bool" where
  "configSent kp cr mid =
     (List.map_filter configSubmitted mid
        = map (\<lambda>bundle. Inl (map (sign kp) bundle)) (case bundles cr of None \<Rightarrow> [] | Some bs \<Rightarrow> bs)
          @ map Inr (case transactions cr of None \<Rightarrow> [] | Some ts \<Rightarrow> ts) \<and>
      list_all okOrFees mid \<and> \<not> list_ex isLaunchSubmission mid)"

text \<open>
  The config registration completed in the history \<open>tr\<close> of a run that started at \<open>h\<close>:
  a config request returned what the SDK answered at that point, all of that answer was
  then submitted and accepted, and no launch bundle was submitted before.
\<close>

definition configCompleted :: "SDK \<Rightarrow> Keypair \<Rightarrow> history \<Rightarrow> history \<Rightarrow> bool" where
  "configCompleted sdk kp h tr =
     (\<exists>pre ps cr mid post.
        tr = pre @ Ev (CreateBagsFeeShareConfig ps) True # mid @ post \<and>
        createBagsFeeShareConfig sdk (h @ pre) ps = Inr cr \<and>
        configSent kp cr mid \<and> \<not> list_ex isLaunchSubmission pre)"

text \<open>
  No launch bundle submitted so far; and: a launch bundle is submitted only in a history
  where the config registration completed.
\<close>

definition noLaunch :: "history \<Rightarrow> bool" where
  "noLaunch tr = (\<not> list_ex isLaunchSubmission tr)"

definition launchAfterConfig :: "SDK \<Rightarrow> Keypair \<Rightarrow> history \<Rightarrow> history \<Rightarrow> bool" where
  "launchAfterConfig sdk kp h tr = (list_ex isLaunchSubmission tr \<longrightarrow> configCompleted sdk kp h tr)"



text \<open>
  A second reading of a program, which keeps the error: from a history \<open>h0 @ tr\<close> with
  \<open>P tr\<close>, the program ends in \<open>h0 @ tr'\<close>, with \<open>Q x tr'\<close> when it returns \<open>x\<close> and with
  \<open>E e tr'\<close> when it throws \<open>e\<close>.
\<close>

definition tripleE ::
  "history \<Rightarrow> (history \<Rightarrow> bool) \<Rightarrow> 'a prog \<Rightarrow> ('a \<Rightarrow> history \<Rightarrow> bool) \<Rightarrow> (error \<Rightarrow> history \<Rightarrow> bool) \<Rightarrow> bool" where
  "tripleE h0 P m Q E =
     (\<forall>tr. P tr \<longrightarrow>
        (case m (h0 @ tr) of
           (Inr x, h') \<Rightarrow> \<exists>tr'. h' = h0 @ tr' \<and> Q x tr'
         | (Inl e, h') \<Rightarrow> \<exists>tr'. h' = h0 @ tr' \<and> E e tr'))"




section \<open>More example inputs and the histories of their runs\<close>

definition sixteenClaimers :: "FeeClaimer list" where
  "sixteenClaimers =
     [walletClaimer ''W01'' 625, walletClaimer ''W02'' 625, walletClaimer ''W03'' 625,
      walletClaimer ''W04'' 625, walletClaimer ''W05'' 625, walletClaimer ''W06'' 625,
      walletClaimer ''W07'' 625, walletClaimer ''W08'' 625, walletClaimer ''W09'' 625,
      walletClaimer ''W10'' 625, walletClaimer ''W11'' 625, walletClaimer ''W12'' 625,
      walletClaimer ''W13'' 625, walletClaimer ''W14'' 625, walletClaimer ''W15'' 625,
      walletClaimer ''W16'' 625]"

definition sixteenResolved :: "ResolvedClaimer list" where
  "sixteenResolved = map (\<lambda>fc. \<lparr>user = the (wallet fc), userBps = bps fc\<rparr>) sixteenClaimers"

definition sixteenTrace :: history where
  "sixteenTrace =
     [Ev (CreateTokenInfoAndMetadata
            \<lparr>infoImageUrl = ''https://example.com/token.png'', infoName = ''Shared Token'',
             infoSymbol = ''SHARE'', infoDescription = ''A token with fee sharing'',
             infoTwitter = None, infoWebsite = None, infoTelegram = None\<rparr>) True,
      Ev (GetConfigCreationLookupTableTransactions ''Creator'' ''Mint'' sixteenResolved) True,
      Ev (SignAndSendTransaction LutCreation (demoTx ''lut-create'') None) True,
      Ev (WaitForSlotsToPass 1) True,
      Ev (SignAndSendTransaction LutExtend (demoTx ''lut-extend-1'') None) True,
      Ev (SignAndSendTransaction LutExtend (demoTx ''lut-extend-2'') None) True,
      Ev (CreateBagsFeeShareConfig
            \<lparr>payer = ''Creator'', baseMint = ''Mint'', configClaimers = sixteenResolved,
             partner = None, partnerConfig = None, additionalLookupTables = Some [''Lut'']\<rparr>) True,
      Ev (SignAndSendTransaction ConfigTransaction (demoTx ''config'') None) True,
      Ev (CreateLaunchTransaction
            \<lparr>metadataUrl = ''ipfs://metadata'', tokenMint = ''Mint'', launchWallet = ''Creator'',
             initialBuyLamports = 10000000, configKey = ''ConfigKey''\<rparr>) True,
      Ev GetJitoRecentFees True,
      Ev (CreateTipTransaction ''Creator'' 15000000 ''hash'') True,
      Ev (SendBundleAndConfirm LaunchBundle
            [sign demoKeypair (demoTx ''tip''), sign demoKeypair (demoTx ''launch'')]) True]"

definition demoTokenParams :: LaunchTokenParams where
  "demoTokenParams =
     \<lparr>name = ''My Token'', symbol = ''MTK'', description = ''A token launched via Bags API'',
      imageUrl = ''https://example.com/token-image.png'', initialBuySol = 1 / 100,
      twitter = Some ''https://x.com/mytoken'', website = Some ''https://mytoken.com'',
      telegram = None\<rparr>"

definition tokenTrace :: history where
  "tokenTrace =
     [Ev (CreateTokenInfoAndMetadata
            \<lparr>infoImageUrl = ''https://example.com/token-image.png'', infoName = ''My Token'',
             infoSymbol = ''MTK'', infoDescription = ''A token launched via Bags API'',
             infoTwitter = Some ''https://x.com/mytoken'', infoWebsite = Some ''https://mytoken.com'',
             infoTelegram = None\<rparr>) True,
      Ev (CreateBagsFeeShareConfig
            \<lparr>payer = ''Creator'', baseMint = ''Mint'',
             configClaimers = [\<lparr>user = ''Creator'', userBps = 10000\<rparr>],
             partner = None, partnerConfig = None, additionalLookupTables = None\<rparr>) True,
      Ev (SignAndSendTransaction ConfigTransaction (demoTx ''config'') None) True,
      Ev (CreateLaunchTransaction
            \<lparr>metadataUrl = ''ipfs://metadata'', tokenMint = ''Mint'', launchWallet = ''Creator'',
             initialBuyLamports = 10000000, configKey = ''ConfigKey''\<rparr>) True,
      Ev GetJitoRecentFees True,
      Ev (CreateTipTransaction ''Creator'' 15000000 ''hash'') True,
      Ev (SendBundleAndConfirm LaunchBundle
            [sign demoKeypair (demoTx ''tip''), sign demoKeypair (demoTx ''launch'')]) True]"


definition demoPositions :: "ClaimablePosition list" where
  "demoPositions =
     [\<lparr>positionMint = ''A'', virtualPoolAddress = ''PoolA''\<rparr>,
      \<lparr>positionMint = ''B'', virtualPoolAddress = ''PoolB''\<rparr>,
      \<lparr>positionMint = ''C'', virtualPoolAddress = ''PoolC''\<rparr>]"

definition claimTrace :: history where
  "claimTrace =
     [Ev (GetClaimTransaction ''Creator'' \<lparr>positionMint = ''A'', virtualPoolAddress = ''PoolA''\<rparr>) True,
      Ev (SignAndSendTransaction ClaimTransaction (demoTx ''claim-A'') None) True,
      Ev (GetClaimTransaction ''Creator'' \<lparr>positionMint = ''B'', virtualPoolAddress = ''PoolB''\<rparr>) True,
      Ev (SignAndSendTransaction ClaimTransaction (demoTx ''claim-B'') None) False,
      Ev (GetClaimTransaction ''Creator'' \<lparr>positionMint = ''C'', virtualPoolAddress = ''PoolC''\<rparr>) True,
      Ev (SignAndSendTransaction ClaimTransaction (demoTx ''claim-C'') None) True]"

definition partnerTrace :: history where
  "partnerTrace =
     [Ev (GetPartnerConfig ''Creator'') False,
      Ev (GetPartnerConfigCreationTransaction ''Creator'') True,
      Ev (SignAndSendTransaction PartnerKeyCreation (demoTx ''partner-Creator'') (Some ''hash'')) True]"

section \<open>The split validation\<close>

lemma foldl_bps: "foldl (\<lambda>sum fc. sum + bps fc) a fcs = a + sum_list (map bps fcs)"
  by (induction fcs arbitrary: a) simp_all

lemma totalBps_sum_list: "totalBps fcs = sum_list (map bps fcs)"
  by (simp add: totalBps_def foldl_bps)

lemma validateBps_eq:
  "validateBps fcs =
     (if sum_list (map bps fcs) = 10000 then Inr ()
      else Inl (TotalBpsError (sum_list (map bps fcs))))"
  by (simp add: validateBps_def totalBps_sum_list)




section \<open>Rules of the program logic\<close>

lemma triple_returnP: "(\<And>tr. P tr \<Longrightarrow> Q x tr) \<Longrightarrow> triple h0 P (returnP x) Q E"
  by (simp add: triple_def returnP_def)

lemma triple_throwP: "(\<And>tr. P tr \<Longrightarrow> E tr) \<Longrightarrow> triple h0 P (throwP e) Q E"
  by (simp add: triple_def throwP_def)

lemma triple_bindP:
  assumes "triple h0 P m R E" and "\<And>x. triple h0 (R x) (f x) Q E"
  shows "triple h0 P (bindP m f) Q E"
  unfolding triple_def
proof (intro allI impI)
  fix tr assume "P tr"
  with assms(1) have m: "case m (h0 @ tr) of
           (Inr x, h') \<Rightarrow> \<exists>tr'. h' = h0 @ tr' \<and> R x tr'
         | (Inl e, h') \<Rightarrow> \<exists>tr'. h' = h0 @ tr' \<and> E tr'"
    by (simp add: triple_def)
  obtain r h' where eq: "m (h0 @ tr) = (r, h')" by (cases "m (h0 @ tr)")
  show "case bindP m f (h0 @ tr) of
           (Inr x, h') \<Rightarrow> \<exists>tr'. h' = h0 @ tr' \<and> Q x tr'
         | (Inl e, h') \<Rightarrow> \<exists>tr'. h' = h0 @ tr' \<and> E tr'"
  proof (cases r)
    case (Inl e)
    with m eq show ?thesis by (simp add: bindP_def)
  next
    case (Inr x)
    with m eq obtain tr' where tr': "h' = h0 @ tr'" "R x tr'" by auto
    from assms(2)[of x] tr'(2) have "case f x (h0 @ tr') of
           (Inr x, h') \<Rightarrow> \<exists>tr'. h' = h0 @ tr' \<and> Q x tr'
         | (Inl e, h') \<Rightarrow> \<exists>tr'. h' = h0 @ tr' \<and> E tr'"
      by (simp add: triple_def)
    with eq Inr tr'(1) show ?thesis by (simp add: bindP_def)
  qed
qed

lemma triple_catchP:
  assumes "triple h0 P m Q R" and "\<And>e. triple h0 R (f e) Q E"
  shows "triple h0 P (catchP m f) Q E"
  unfolding triple_def
proof (intro allI impI)
  fix tr assume "P tr"
  with assms(1) have m: "case m (h0 @ tr) of
           (Inr x, h') \<Rightarrow> \<exists>tr'. h' = h0 @ tr' \<and> Q x tr'
         | (Inl e, h') \<Rightarrow> \<exists>tr'. h' = h0 @ tr' \<and> R tr'"
    by (simp add: triple_def)
  obtain r h' where eq: "m (h0 @ tr) = (r, h')" by (cases "m (h0 @ tr)")
  show "case catchP m f (h0 @ tr) of
           (Inr x, h') \<Rightarrow> \<exists>tr'. h' = h0 @ tr' \<and> Q x tr'
         | (Inl e, h') \<Rightarrow> \<exists>tr'. h' = h0 @ tr' \<and> E tr'"
  proof (cases r)
    case (Inr x)
    with m eq show ?thesis by (simp add: catchP_def)
  next
    case (Inl e)
    with m eq obtain tr' where tr': "h' = h0 @ tr'" "R tr'" by auto
    from assms(2)[of e] tr'(2) have "case f e (h0 @ tr') of
           (Inr x, h') \<Rightarrow> \<exists>tr'. h' = h0 @ tr' \<and> Q x tr'
         | (Inl e, h') \<Rightarrow> \<exists>tr'. h' = h0 @ tr' \<and> E tr'"
      by (simp add: triple_def)
    with eq Inl tr'(1) show ?thesis by (simp add: catchP_def)
  qed
qed

lemma triple_callSdk:
  assumes "\<And>tr x. P tr \<Longrightarrow> Q x (tr @ [Ev c True])" and "\<And>tr. P tr \<Longrightarrow> E (tr @ [Ev c False])"
  shows "triple h0 P (callSdk c oracle) Q E"
  using assms by (auto simp: triple_def callSdk_def split: sum.splits)

lemma triple_weaken:
  assumes "triple h0 P m Q E" and "\<And>tr. P' tr \<Longrightarrow> P tr" and "\<And>x tr. Q x tr \<Longrightarrow> Q' x tr"
    and "\<And>tr. E tr \<Longrightarrow> E' tr"
  shows "triple h0 P' m Q' E'"
  unfolding triple_def
proof (intro allI impI)
  fix tr assume "P' tr"
  then have "P tr" by (rule assms(2))
  with assms(1) have "case m (h0 @ tr) of
           (Inr x, h') \<Rightarrow> \<exists>tr'. h' = h0 @ tr' \<and> Q x tr'
         | (Inl e, h') \<Rightarrow> \<exists>tr'. h' = h0 @ tr' \<and> E tr'"
    by (simp add: triple_def)
  then show "case m (h0 @ tr) of
           (Inr x, h') \<Rightarrow> \<exists>tr'. h' = h0 @ tr' \<and> Q' x tr'
         | (Inl e, h') \<Rightarrow> \<exists>tr'. h' = h0 @ tr' \<and> E' tr'"
    using assms(3,4) by (auto split: prod.splits sum.splits)
qed

lemma triple_forEachP:
  assumes "\<And>x. x \<in> set xs \<Longrightarrow> triple h0 I (f x) (\<lambda>_. I) E"
  shows "triple h0 I (forEachP f xs) (\<lambda>_. I) E"
  using assms
proof (induction xs)
  case Nil
  show ?case by (simp add: triple_returnP)
next
  case (Cons x xs)
  show ?case
    by (simp, rule triple_bindP[where R = "\<lambda>_. I"]) (simp_all add: Cons)
qed

lemma tripleD:
  "triple h0 P m Q E \<Longrightarrow> P tr \<Longrightarrow>
     (case m (h0 @ tr) of
        (Inr x, h') \<Rightarrow> \<exists>tr'. h' = h0 @ tr' \<and> Q x tr'
      | (Inl e, h') \<Rightarrow> \<exists>tr'. h' = h0 @ tr' \<and> E tr')"
  by (simp add: triple_def)

lemma triple_run:
  assumes "triple h0 P m Q E" and "P []" and "m h0 = (r, h')"
  shows "\<exists>tr. h' = h0 @ tr \<and> (case r of Inr x \<Rightarrow> Q x tr | Inl e \<Rightarrow> E tr)"
  using tripleD[OF assms(1,2)] assms(3) by (cases r) auto

lemma triple_result:
  assumes "triple h0 P m Q E" and "\<And>h x h'. m h = (Inr x, h') \<Longrightarrow> R x"
  shows "triple h0 P m (\<lambda>x tr. Q x tr \<and> R x) E"
  unfolding triple_def
proof (intro allI impI)
  fix tr assume "P tr"
  from tripleD[OF assms(1) this] assms(2)[of "h0 @ tr"]
  show "case m (h0 @ tr) of
           (Inr x, h') \<Rightarrow> \<exists>tr'. h' = h0 @ tr' \<and> Q x tr' \<and> R x
         | (Inl e, h') \<Rightarrow> \<exists>tr'. h' = h0 @ tr' \<and> E tr'"
    by (auto split: prod.splits sum.splits)
qed

lemma triple_assume:
  assumes "R \<Longrightarrow> triple h0 P m Q E"
  shows "triple h0 (\<lambda>tr. P tr \<and> R) m Q E"
  using assms by (cases R) (simp_all add: triple_def)

lemma closed_mono: "closed fp I E \<Longrightarrow> (\<And>c. fp' c \<Longrightarrow> fp c) \<Longrightarrow> closed fp' I E"
  unfolding closed_def by blast

lemma closedD_exit: "closed fp I E \<Longrightarrow> I tr \<Longrightarrow> E tr"
  by (simp add: closed_def)

lemma closedD_ok: "closed fp I E \<Longrightarrow> I tr \<Longrightarrow> fp c \<Longrightarrow> I (tr @ [Ev c True])"
  by (simp add: closed_def)

lemma closedD_fail: "closed fp I E \<Longrightarrow> I tr \<Longrightarrow> fp c \<Longrightarrow> c \<noteq> GetJitoRecentFees \<Longrightarrow> E (tr @ [Ev c False])"
  by (auto simp: closed_def split: if_splits)

lemma closedD_soft: "closed fp I E \<Longrightarrow> I tr \<Longrightarrow> fp GetJitoRecentFees \<Longrightarrow> I (tr @ [Ev GetJitoRecentFees b])"
  by (cases b) (auto simp: closed_def split: if_splits)

lemma triple_call_closed:
  assumes "closed fp I E" and "fp c" and "c \<noteq> GetJitoRecentFees"
  shows "triple h0 I (callSdk c oracle) (\<lambda>_. I) E"
  by (rule triple_callSdk) (simp_all add: closedD_ok[OF assms(1) _ assms(2)] closedD_fail[OF assms(1) _ assms(2,3)])

section \<open>The parts of a launch\<close>

lemma triple_signAndSend:
  assumes "closed fp I E" and "fp (SignAndSendTransaction s tx None)"
  shows "triple h0 I (signAndSend sdk s tx) (\<lambda>_. I) E"
  unfolding signAndSend_def
  by (rule triple_bindP[where R = "\<lambda>_. I"])
     (simp_all add: triple_call_closed[OF assms] triple_returnP)

lemma triple_sends:
  assumes "closed fp I E" and "\<And>tx. fp (SignAndSendTransaction s tx None)"
  shows "triple h0 I (forEachP (signAndSend sdk s) txs) (\<lambda>_. I) E"
  by (rule triple_forEachP) (rule triple_signAndSend[OF assms(1) assms(2)])

lemma triple_jitoTip:
  assumes "closed fp I E" and "fp GetJitoRecentFees"
  shows "triple h0 I (jitoTip sdk) (\<lambda>_. I) E"
  unfolding jitoTip_def
proof (rule triple_catchP[where R = I])
  show "triple h0 I
     (bindP (callSdk GetJitoRecentFees (getJitoRecentFees sdk))
       (\<lambda>jitoFees. returnP
          (case jitoFees of
             Some p \<Rightarrow> if p \<noteq> 0 then \<lfloor>p * real_of_int LAMPORTS_PER_SOL\<rfloor> else FALLBACK_JITO_TIP
           | None \<Rightarrow> FALLBACK_JITO_TIP)))
     (\<lambda>_. I) I"
    by (rule triple_bindP[where R = "\<lambda>_. I"])
       (simp_all add: triple_callSdk closedD_soft[OF assms(1) _ assms(2)] triple_returnP)
  show "\<And>e. triple h0 I (returnP FALLBACK_JITO_TIP) (\<lambda>_. I) E"
    by (simp add: triple_returnP)
qed

lemma triple_tip_bundle:
  assumes "closed fp I E" and "\<And>c. jitoCall s c \<Longrightarrow> fp c"
  shows "triple h0 I
           (bindP (callSdk (CreateTipTransaction pk n bh) o1)
              (\<lambda>tipTx. callSdk (SendBundleAndConfirm s (g tipTx)) (o2 tipTx)))
           (\<lambda>_. I) E"
  by (rule triple_bindP[where R = "\<lambda>_. I"]; rule triple_call_closed[OF assms(1)])
     (simp_all add: assms(2))

lemma triple_sendWithJito:
  assumes "closed fp I E" and "\<And>c. jitoCall s c \<Longrightarrow> fp c"
  shows "triple h0 I (sendWithJito sdk kp s txs) (\<lambda>_. I) E"
proof (cases txs)
  case Nil
  then show ?thesis
    by (simp add: sendWithJito_def triple_throwP closedD_exit[OF assms(1)])
next
  case (Cons t ts)
  show ?thesis
  proof (cases "recentBlockhash t = []")
    case True
    with Cons show ?thesis
      by (simp add: sendWithJito_def triple_throwP closedD_exit[OF assms(1)])
  next
    case False
    have tip: "triple h0 I (jitoTip sdk) (\<lambda>_. I) E"
      by (rule triple_jitoTip[OF assms(1)]) (simp add: assms(2))
    show ?thesis
      unfolding sendWithJito_def Cons
      apply (simp only: list.case False if_False)
      apply (rule triple_bindP[where R = "\<lambda>_. I"])
       apply (rule tip)
      apply (rule triple_tip_bundle[OF assms])
      apply assumption
      done
  qed
qed

lemma jitoCall_configCall: "jitoCall ConfigBundle c \<Longrightarrow> configCall c"
  by (cases c) simp_all

lemma jitoCall_launchCall: "jitoCall LaunchBundle c \<Longrightarrow> launchCall c"
  by (cases c) simp_all

lemma triple_sendConfigTransactions:
  assumes "closed fp I E" and "\<And>c. configCall c \<Longrightarrow> fp c"
  shows "triple h0 I (sendConfigTransactions sdk kp configResult) (\<lambda>_. I) E"
  unfolding sendConfigTransactions_def
proof (rule triple_bindP[where R = "\<lambda>_. I"])
  have one: "\<And>bundle. triple h0 I (bindP (sendWithJito sdk kp ConfigBundle bundle) (\<lambda>_. returnP ())) (\<lambda>_. I) E"
    by (rule triple_bindP[where R = "\<lambda>_. I"], rule triple_sendWithJito[OF assms(1)],
        rule assms(2), erule jitoCall_configCall, simp add: triple_returnP)
  show "triple h0 I
     (forEachP (\<lambda>bundle. bindP (sendWithJito sdk kp ConfigBundle bundle) (\<lambda>_. returnP ()))
       (case bundles configResult of None \<Rightarrow> [] | Some bs \<Rightarrow> bs))
     (\<lambda>_. I) E"
    by (rule triple_forEachP) (rule one)
  show "\<And>x. triple h0 I
          (forEachP (signAndSend sdk ConfigTransaction)
            (case transactions configResult of None \<Rightarrow> [] | Some ts \<Rightarrow> ts))
          (\<lambda>_. I) E"
    by (rule triple_sends[OF assms(1)]) (simp add: assms(2))
qed

lemma triple_createFeeConfig:
  assumes "closed fp I' E" and "\<And>c. configCall c \<Longrightarrow> fp c"
    and "\<And>tr. I tr \<Longrightarrow> I' (tr @ [Ev (CreateBagsFeeShareConfig ps) True])"
    and "\<And>tr. I tr \<Longrightarrow> E (tr @ [Ev (CreateBagsFeeShareConfig ps) False])"
  shows "triple h0 I (createFeeConfig sdk kp ps) (\<lambda>_. I') E"
  unfolding createFeeConfig_def
proof (rule triple_bindP[where R = "\<lambda>_. I'"])
  show "triple h0 I (callSdk (CreateBagsFeeShareConfig ps) (\<lambda>h. createBagsFeeShareConfig sdk h ps))
     (\<lambda>_. I') E"
    by (rule triple_callSdk) (simp_all add: assms(3,4))
  show "\<And>x. triple h0 I' (bindP (sendConfigTransactions sdk kp x) (\<lambda>_. returnP x)) (\<lambda>_. I') E"
    by (rule triple_bindP[where R = "\<lambda>_. I'"], rule triple_sendConfigTransactions[OF assms(1,2)])
       (simp_all add: triple_returnP)
qed

lemma triple_sendLaunch:
  assumes "closed fp I E" and "\<And>c. launchCall c \<Longrightarrow> fp c"
  shows "triple h0 I (sendLaunch sdk kp mint metadata buySol cfgKey) (\<lambda>_. I) E"
  unfolding sendLaunch_def
proof (rule triple_bindP[where R = "\<lambda>_. I"])
  show "triple h0 I
     (callSdk
       (CreateLaunchTransaction
         \<lparr>metadataUrl = metadata, tokenMint = mint, launchWallet = publicKey kp,
            initialBuyLamports = buySol * real_of_int LAMPORTS_PER_SOL, configKey = cfgKey\<rparr>)
       (\<lambda>h. createLaunchTransaction sdk h
              \<lparr>metadataUrl = metadata, tokenMint = mint, launchWallet = publicKey kp,
                 initialBuyLamports = buySol * real_of_int LAMPORTS_PER_SOL, configKey = cfgKey\<rparr>))
     (\<lambda>_. I) E"
    by (rule triple_call_closed[OF assms(1)]) (simp_all add: assms(2))
  show "\<And>x. triple h0 I
          (bindP (sendWithJito sdk kp LaunchBundle [x])
            (\<lambda>bundle. returnP \<lparr>resultMint = mint, resultMetadata = metadata, bundleId = bundle\<rparr>))
          (\<lambda>_. I) E"
    by (rule triple_bindP[where R = "\<lambda>_. I"], rule triple_sendWithJito[OF assms(1)],
        rule assms(2), erule jitoCall_launchCall, simp add: triple_returnP)
qed

lemma triple_resolveFeeClaimer:
  assumes "closed fp I E" and "\<And>c. resolveCall c \<Longrightarrow> fp c"
  shows "triple h0 I (resolveFeeClaimer sdk fc) (\<lambda>_. I) E"
  unfolding resolveFeeClaimer_def
  by (auto split: option.splits
      simp: triple_returnP triple_throwP closedD_exit[OF assms(1)]
      intro!: triple_call_closed[OF assms(1)] assms(2))

lemma triple_resolveFeeClaimers:
  assumes "closed fp I E" and "\<And>c. resolveCall c \<Longrightarrow> fp c"
  shows "triple h0 I (resolveFeeClaimers sdk fcs acc) (\<lambda>_. I) E"
proof (induction fcs arbitrary: acc)
  case Nil
  show ?case by (simp add: triple_returnP)
next
  case (Cons fc fcs)
  show ?case
    by (simp, rule triple_bindP[where R = "\<lambda>_. I"], rule triple_resolveFeeClaimer[OF assms(1)],
        erule assms(2), rule Cons.IH)
qed

lemma triple_handleLookupTables:
  assumes nolut: "\<And>tr. length rs \<le> 15 \<Longrightarrow> I0 tr \<Longrightarrow> Q tr"
    and plan: "\<And>tr. 15 < length rs \<Longrightarrow> I0 tr \<Longrightarrow>
        I1 (tr @ [Ev (GetConfigCreationLookupTableTransactions (publicKey kp) mint rs) True]) \<and>
        E (tr @ [Ev (GetConfigCreationLookupTableTransactions (publicKey kp) mint rs) False])"
    and create: "\<And>tr tx. 15 < length rs \<Longrightarrow> I1 tr \<Longrightarrow>
        I2 (tr @ [Ev (SignAndSendTransaction LutCreation tx None) True]) \<and>
        E (tr @ [Ev (SignAndSendTransaction LutCreation tx None) False])"
    and wait: "\<And>tr. 15 < length rs \<Longrightarrow> I2 tr \<Longrightarrow>
        I3 (tr @ [Ev (WaitForSlotsToPass 1) True]) \<and> E (tr @ [Ev (WaitForSlotsToPass 1) False])"
    and extend: "15 < length rs \<Longrightarrow> closed (sendCall LutExtend) I3 E"
    and fin: "\<And>tr. 15 < length rs \<Longrightarrow> I3 tr \<Longrightarrow> Q tr"
  shows "triple h0 I0 (handleLookupTables sdk kp mint rs) (\<lambda>_. Q) E"
proof (cases "length rs > BAGS_FEE_SHARE_V2_MAX_CLAIMERS_NON_LUT")
  case False
  then show ?thesis
    by (simp add: handleLookupTables_def triple_returnP nolut BAGS_FEE_SHARE_V2_MAX_CLAIMERS_NON_LUT_def)
next
  case True
  then have big: "15 < length rs"
    by (simp add: BAGS_FEE_SHARE_V2_MAX_CLAIMERS_NON_LUT_def)
  note plan = plan[OF big] and create = create[OF big] and wait = wait[OF big]
    and extend = extend[OF big] and fin = fin[OF big]
  have s1: "triple h0 I0
     (callSdk (GetConfigCreationLookupTableTransactions (publicKey kp) mint rs)
        (\<lambda>h. getConfigCreationLookupTableTransactions sdk h (publicKey kp) mint rs)) (\<lambda>_. I1) E"
    by (rule triple_callSdk) (simp_all add: plan)
  have s2: "\<And>tx. triple h0 I1 (signAndSend sdk LutCreation tx) (\<lambda>_. I2) E"
    unfolding signAndSend_def
    by (rule triple_bindP[where R = "\<lambda>_. I2"], rule triple_callSdk)
       (simp_all add: create triple_returnP)
  have s3: "triple h0 I2 (callSdk (WaitForSlotsToPass 1) (\<lambda>h. waitForSlotsToPass sdk h 1)) (\<lambda>_. I3) E"
    by (rule triple_callSdk) (use wait in blast)+
  have s4: "\<And>txs. triple h0 I3 (forEachP (signAndSend sdk LutExtend) txs) (\<lambda>_. I3) E"
    by (rule triple_sends[OF extend]) simp
  have s5: "\<And>x. triple h0 I3 (returnP x) (\<lambda>_. Q) E"
    by (rule triple_returnP) (rule fin)
  from True show ?thesis
    unfolding handleLookupTables_def
    apply (simp only: if_True)
    apply (rule triple_bindP[where R = "\<lambda>_. I1"], rule s1)
    apply (rule triple_bindP[where R = "\<lambda>_. I2"], rule s2)
    apply (rule triple_bindP[where R = "\<lambda>_. I3"], rule s3)
    apply (rule triple_bindP[where R = "\<lambda>_. I3"], rule s4)
    apply (rule s5)
    done
qed

section \<open>Identity resolution\<close>

lemma resolveCall_preCall: "resolveCall c \<Longrightarrow> preCall c"
  by (cases c) simp_all

lemma resolveFeeClaimer_kept:
  "resolveFeeClaimer sdk fc h = (Inr w, h') \<Longrightarrow> keptShare fc \<lparr>user = w, userBps = bps fc\<rparr>"
  by (auto simp: resolveFeeClaimer_def keptShare_def returnP_def split: option.splits)

lemma resolveFeeClaimers_acc:
  "resolveFeeClaimers sdk fcs acc h = (Inr rs, h') \<Longrightarrow>
     \<exists>rs'. rs = acc @ rs' \<and> list_all2 keptShare fcs rs'"
proof (induction fcs arbitrary: acc h)
  case Nil
  then show ?case by (simp add: returnP_def)
next
  case (Cons fc fcs)
  obtain r1 h1 where one: "resolveFeeClaimer sdk fc h = (r1, h1)"
    by (cases "resolveFeeClaimer sdk fc h")
  show ?case
  proof (cases r1)
    case (Inl e)
    with Cons.prems one show ?thesis by (simp add: bindP_def)
  next
    case (Inr w)
    with Cons.prems one
    have "resolveFeeClaimers sdk fcs (acc @ [\<lparr>user = w, userBps = bps fc\<rparr>]) h1 = (Inr rs, h')"
      by (simp add: bindP_def)
    from Cons.IH[OF this] obtain rs' where
      rs': "rs = (acc @ [\<lparr>user = w, userBps = bps fc\<rparr>]) @ rs'" "list_all2 keptShare fcs rs'"
      by blast
    from one Inr have "keptShare fc \<lparr>user = w, userBps = bps fc\<rparr>"
      by (simp add: resolveFeeClaimer_kept)
    with rs' show ?thesis by simp
  qed
qed

lemma resolveFeeClaimers_kept:
  "resolveFeeClaimers sdk fcs [] h = (Inr rs, h') \<Longrightarrow> list_all2 keptShare fcs rs"
  by (drule resolveFeeClaimers_acc) simp

lemma kept_explicit:
  assumes "list_all2 keptShare fcs rs"
  shows "length rs = length fcs \<and> map userBps rs = map bps fcs \<and>
         (\<forall>i<length fcs. \<forall>w. wallet (fcs ! i) = Some w \<longrightarrow> user (rs ! i) = w)"
proof (intro conjI allI impI)
  show len: "length rs = length fcs" using assms by (simp add: list_all2_lengthD)
  show "map userBps rs = map bps fcs"
    using assms len by (auto simp: list_eq_iff_nth_eq list_all2_conv_all_nth keptShare_def)
  fix i w assume "i < length fcs" "wallet (fcs ! i) = Some w"
  with assms show "user (rs ! i) = w"
    by (auto simp: list_all2_conv_all_nth keptShare_def)
qed

lemma resolveFeeClaimers_direct:
  "\<forall>fc \<in> set fcs. wallet fc \<noteq> None \<Longrightarrow>
   resolveFeeClaimers sdk fcs acc h =
     (Inr (acc @ map (\<lambda>fc. \<lparr>user = the (wallet fc), userBps = bps fc\<rparr>) fcs), h)"
proof (induction fcs arbitrary: acc)
  case Nil
  show ?case by (simp add: returnP_def)
next
  case (Cons fc fcs)
  from Cons.prems obtain w where w: "wallet fc = Some w" by auto
  from Cons.prems have "\<forall>fc \<in> set fcs. wallet fc \<noteq> None" by simp
  from Cons.IH[OF this] w show ?case
    by (simp add: resolveFeeClaimer_def bindP_def returnP_def)
qed

text \<open>The whole launch, for any invariants that fit its parts.\<close>

lemma triple_launchWithFeeShare:
  assumes pre: "closed preCall I0 E"
    and lut: "\<And>mint rs. list_all2 keptShare (feeClaimers params) rs \<Longrightarrow>
                triple h0 I0 (handleLookupTables sdk kp mint rs) (\<lambda>_. I1) E"
    and cfg: "\<And>tr mint rs luts. I1 tr \<Longrightarrow> list_all2 keptShare (feeClaimers params) rs \<Longrightarrow>
        I2 (tr @ [Ev (CreateBagsFeeShareConfig
                        \<lparr>payer = publicKey kp, baseMint = mint, configClaimers = rs,
                         partner = None, partnerConfig = None, additionalLookupTables = luts\<rparr>) True]) \<and>
        E (tr @ [Ev (CreateBagsFeeShareConfig
                        \<lparr>payer = publicKey kp, baseMint = mint, configClaimers = rs,
                         partner = None, partnerConfig = None, additionalLookupTables = luts\<rparr>) False])"
    and sub: "closed configCall I2 E"
    and step: "\<And>tr. I2 tr \<Longrightarrow> I3 tr"
    and fin: "closed launchCall I3 E"
  shows "triple h0 I0 (launchWithFeeShare sdk kp params) (\<lambda>_. I3) E"
proof (cases "validateBps (feeClaimers params)")
  case (Inl e)
  then show ?thesis
    by (simp add: launchWithFeeShare_def triple_throwP closedD_exit[OF pre])
next
  case (Inr u)
  have meta: "\<And>info. triple h0 I0
      (callSdk (CreateTokenInfoAndMetadata info) (\<lambda>h. createTokenInfoAndMetadata sdk h info)) (\<lambda>_. I0) E"
    by (rule triple_call_closed[OF pre]) simp_all
  have res: "triple h0 I0 (resolveFeeClaimers sdk (feeClaimers params) [])
      (\<lambda>rs tr. I0 tr \<and> list_all2 keptShare (feeClaimers params) rs) E"
    by (rule triple_result, rule triple_resolveFeeClaimers[OF pre])
       (simp_all add: resolveFeeClaimers_kept resolveCall_preCall)
  have lut': "\<And>mint rs. triple h0 (\<lambda>tr. I0 tr \<and> list_all2 keptShare (feeClaimers params) rs)
      (handleLookupTables sdk kp mint rs)
      (\<lambda>_ tr. I1 tr \<and> list_all2 keptShare (feeClaimers params) rs) E"
    by (rule triple_assume) (rule triple_weaken[OF lut], simp_all)
  have cf: "triple h0 (\<lambda>tr. I1 tr \<and> list_all2 keptShare (feeClaimers params) rs)
      (createFeeConfig sdk kp
         \<lparr>payer = publicKey kp, baseMint = mint, configClaimers = rs,
          partner = None, partnerConfig = None, additionalLookupTables = luts\<rparr>)
      (\<lambda>_. I3) E" for mint rs luts
  proof -
    have "triple h0 (\<lambda>tr. I1 tr \<and> list_all2 keptShare (feeClaimers params) rs)
      (createFeeConfig sdk kp
         \<lparr>payer = publicKey kp, baseMint = mint, configClaimers = rs,
          partner = None, partnerConfig = None, additionalLookupTables = luts\<rparr>)
      (\<lambda>_. I2) E"
      by (rule triple_createFeeConfig[OF sub,
            where I = "\<lambda>tr. I1 tr \<and> list_all2 keptShare (feeClaimers params) rs"])
         (simp_all add: cfg)
    then show ?thesis by (rule triple_weaken) (simp_all add: step)
  qed
  have la: "\<And>mint metadata buySol cfgKey.
      triple h0 I3 (sendLaunch sdk kp mint metadata buySol cfgKey) (\<lambda>_. I3) E"
    by (rule triple_sendLaunch[OF fin])
  from Inr show ?thesis
    unfolding launchWithFeeShare_def
    apply (simp only: sum.case)
    apply (rule triple_bindP[where R = "\<lambda>_. I0"], rule meta)
    apply (simp only: split_paired_all prod.case)
    apply (rule triple_bindP[where R = "\<lambda>rs tr. I0 tr \<and> list_all2 keptShare (feeClaimers params) rs"], rule res)
    apply (rule triple_bindP[where R = "\<lambda>_ tr. I1 tr \<and> list_all2 keptShare (feeClaimers params) rs" for rs], rule lut')
    apply (rule triple_bindP[where R = "\<lambda>_. I3"], rule cf)
    apply (rule la)
    done
qed

section \<open>Runs of the example SDK\<close>

lemmas run_defs = bindP_def callSdk_def returnP_def throwP_def catchP_def
  resolveFeeClaimer_def handleLookupTables_def BAGS_FEE_SHARE_V2_MAX_CLAIMERS_NON_LUT_def
  createFeeConfig_def sendConfigTransactions_def signAndSend_def sendLaunch_def sendWithJito_def
  jitoTip_def sign_def validateBps_def totalBps_def launchWithFeeShare_def
  FALLBACK_JITO_TIP_def LAMPORTS_PER_SOL_def tokenSymbol_def toUpperCase_def

lemmas demo_defs = demoSdk_def demoKeypair_def demoParams_def walletClaimer_def socialClaimer_def
  demoTx_def

lemma demo_resolve:
  "resolveFeeClaimers demoSdk
     [walletClaimer ''A'' 4000, socialClaimer ''bob'' Twitter 3000, walletClaimer ''C'' 3000] [] []
   = (Inr [\<lparr>user = ''A'', userBps = 4000\<rparr>, \<lparr>user = ''wallet-bob'', userBps = 3000\<rparr>,
           \<lparr>user = ''C'', userBps = 3000\<rparr>],
      [Ev (GetLaunchWalletV2 ''bob'' Twitter) True])"
  by (simp add: run_defs demo_defs)

lemma demo_sixteen_run:
  "launchWithFeeShare demoSdk demoKeypair (demoParams sixteenClaimers) []
   = (Inr \<lparr>resultMint = ''Mint'', resultMetadata = ''ipfs://metadata'', bundleId = ''bundle''\<rparr>,
      sixteenTrace)"
  by (simp add: run_defs demo_defs sixteenClaimers_def sixteenTrace_def sixteenResolved_def)

lemma demo_token_run:
  "launchToken demoSdk demoKeypair demoTokenParams []
   = (Inr \<lparr>resultMint = ''Mint'', resultMetadata = ''ipfs://metadata'', bundleId = ''bundle''\<rparr>,
      tokenTrace)"
  by (simp add: launchToken_def run_defs demo_defs demoTokenParams_def tokenTrace_def)


lemma demo_claim_run:
  "claimAll demoSdk demoKeypair None []
   = (Inr (Some (2, 1)), Ev (GetAllClaimablePositions ''Creator'') True # claimTrace)"
  by (simp add: claimAll_def claimPosition_def Let_def run_defs demo_defs claimTrace_def)

lemma demo_partner_first:
  "createPartnerKey demoSdk demoKeypair None [] = (Inr ''pda-Creator'', partnerTrace)"
  by (simp add: createPartnerKey_def Let_def run_defs demo_defs partnerTrace_def partnerKeyCreated_def)

lemma demo_partner_exists:
  "getPartnerConfig demoSdk partnerTrace ''Creator''
   = Inr \<lparr>partnerWallet = ''Creator'', partnerBps = 2500, totalClaimedFees = 0\<rparr>"
  by (simp add: demo_defs partnerTrace_def partnerKeyCreated_def)

section \<open>Claims on validation and resolution\<close>

text \<open>
  Claim C6 says that a sequence with a zero or negative share is rejected even when the
  shares sum to 10000. The validation looks at the total only: the sequence of a zero
  share and a share of 10000 is accepted.
\<close>

theorem zero_share_accepted:
  "bps (walletClaimer ''A'' 0) \<le> 0
   \<and> validateBps [walletClaimer ''A'' 0, walletClaimer ''B'' 10000] = Inr ()"
  by (simp add: validateBps_def totalBps_def walletClaimer_def)

text \<open>
  Claim C6, as the code has it. Take a recipient sequence that contains a zero or negative
  share, with integer shares whose running totals stay in the safe-integer range of
  JavaScript, so that the script adds them exactly. It is rejected by the validation
  exactly when its shares do not sum to 10000, and the error then carries the total. Such
  an entry is not dropped either: whenever the resolution of the sequence succeeds, the
  resolved list has the shares of the sequence, entry by entry.
\<close>

theorem nonpositive_share_rejected_iff_total_differs:
  assumes "\<exists>fc \<in> set fcs. bps fc \<le> 0" and "safeTotals 0 fcs"
  shows "(\<exists>e. validateBps fcs = Inl e) = (sum_list (map bps fcs) \<noteq> 10000)
    \<and> (sum_list (map bps fcs) \<noteq> 10000 \<longrightarrow>
         validateBps fcs = Inl (TotalBpsError (sum_list (map bps fcs))))
    \<and> (\<forall>sdk h rs h'. resolveFeeClaimers sdk fcs [] h = (Inr rs, h') \<longrightarrow>
         map userBps rs = map bps fcs)"
  using kept_explicit[OF resolveFeeClaimers_kept]
  by (auto simp: validateBps_eq)

theorem nonpositive_share_rejected_iff_total_differs_witness:
  "(\<exists>fc \<in> set [walletClaimer ''A'' 0, walletClaimer ''B'' 9000]. bps fc \<le> 0)
   \<and> safeTotals 0 [walletClaimer ''A'' 0, walletClaimer ''B'' 9000]
   \<and> validateBps [walletClaimer ''A'' 0, walletClaimer ''B'' 9000] = Inl (TotalBpsError 9000)
   \<and> (\<exists>fc \<in> set [walletClaimer ''A'' (-2500), walletClaimer ''B'' 12500]. bps fc \<le> 0)
   \<and> safeTotals 0 [walletClaimer ''A'' (-2500), walletClaimer ''B'' 12500]
   \<and> validateBps [walletClaimer ''A'' (-2500), walletClaimer ''B'' 12500] = Inr ()
   \<and> resolveFeeClaimers demoSdk [walletClaimer ''A'' (-2500), walletClaimer ''B'' 12500] [] []
       = (Inr [\<lparr>user = ''A'', userBps = -2500\<rparr>, \<lparr>user = ''B'', userBps = 12500\<rparr>], [])"
  using nonpositive_share_rejected_iff_total_differs[of "[walletClaimer ''A'' 0, walletClaimer ''B'' 9000]"]
    nonpositive_share_rejected_iff_total_differs[of "[walletClaimer ''A'' (-2500), walletClaimer ''B'' 12500]"]
  by (simp add: walletClaimer_def MAX_SAFE_INTEGER_def validateBps_def totalBps_def
      returnP_def bindP_def resolveFeeClaimer_def)

text \<open>
  Claim C10. When the resolution of a fee-claimer list succeeds, the resolved list has as
  many entries as the input, in the same order: the share of the i-th resolved entry is
  the share of the i-th input entry, and an input entry that carries a wallet keeps that
  wallet. The resolution fails only when a lookup fails or an entry has neither a wallet
  nor a username with a provider; when every entry carries a wallet it succeeds without
  any SDK call.
\<close>

theorem resolveFeeClaimers_preserves:
  "(resolveFeeClaimers sdk fcs [] h = (Inr rs, h') \<longrightarrow>
      length rs = length fcs \<and> map userBps rs = map bps fcs \<and>
      (\<forall>i<length fcs. \<forall>w. wallet (fcs ! i) = Some w \<longrightarrow> user (rs ! i) = w))
   \<and> ((\<forall>fc \<in> set fcs. wallet fc \<noteq> None) \<longrightarrow>
      resolveFeeClaimers sdk fcs [] h =
        (Inr (map (\<lambda>fc. \<lparr>user = the (wallet fc), userBps = bps fc\<rparr>) fcs), h))"
  using kept_explicit[OF resolveFeeClaimers_kept, of sdk fcs h rs h']
    resolveFeeClaimers_direct[of fcs sdk "[]" h]
  by simp

theorem resolveFeeClaimers_preserves_witness:
  "resolveFeeClaimers demoSdk
     [walletClaimer ''A'' 4000, socialClaimer ''bob'' Twitter 3000, walletClaimer ''C'' 3000] [] []
   = (Inr [\<lparr>user = ''A'', userBps = 4000\<rparr>, \<lparr>user = ''wallet-bob'', userBps = 3000\<rparr>,
           \<lparr>user = ''C'', userBps = 3000\<rparr>],
      [Ev (GetLaunchWalletV2 ''bob'' Twitter) True])
   \<and> length [\<lparr>user = ''A'', userBps = 4000\<rparr>, \<lparr>user = ''wallet-bob'', userBps = 3000\<rparr>,
           \<lparr>user = ''C'', userBps = 3000\<rparr>] = 3
   \<and> map userBps [\<lparr>user = ''A'', userBps = 4000\<rparr>, \<lparr>user = ''wallet-bob'', userBps = 3000\<rparr>,
           \<lparr>user = ''C'', userBps = 3000\<rparr>] = [4000, 3000, 3000]
   \<and> resolveFeeClaimers demoSdk [walletClaimer ''A'' 7000, walletClaimer ''B'' 3000] [] []
     = (Inr [\<lparr>user = ''A'', userBps = 7000\<rparr>, \<lparr>user = ''B'', userBps = 3000\<rparr>], [])"
  using resolveFeeClaimers_preserves[of demoSdk
           "[walletClaimer ''A'' 4000, socialClaimer ''bob'' Twitter 3000, walletClaimer ''C'' 3000]"
           "[]" "[\<lparr>user = ''A'', userBps = 4000\<rparr>, \<lparr>user = ''wallet-bob'', userBps = 3000\<rparr>,
           \<lparr>user = ''C'', userBps = 3000\<rparr>]" "[Ev (GetLaunchWalletV2 ''bob'' Twitter) True]"]
    resolveFeeClaimers_preserves[of demoSdk "[walletClaimer ''A'' 7000, walletClaimer ''B'' 3000]" "[]"]
    demo_resolve
  by (simp add: walletClaimer_def socialClaimer_def)

section \<open>The lookup-table decision\<close>

lemma startsWithPlan_snoc: "startsWithPlan p m rs tr \<Longrightarrow> startsWithPlan p m rs (tr @ [e])"
  by (auto simp: startsWithPlan_def)

lemma lookup_starts:
  assumes "15 < length rs"
  shows "triple h (\<lambda>tr. tr = []) (handleLookupTables sdk kp mint rs)
           (\<lambda>_. startsWithPlan (publicKey kp) mint rs) (startsWithPlan (publicKey kp) mint rs)"
proof (rule triple_handleLookupTables[where ?I1.0 = "startsWithPlan (publicKey kp) mint rs"
        and ?I2.0 = "startsWithPlan (publicKey kp) mint rs"
        and ?I3.0 = "startsWithPlan (publicKey kp) mint rs"])
  show "closed (sendCall LutExtend) (startsWithPlan (publicKey kp) mint rs)
          (startsWithPlan (publicKey kp) mint rs)"
    by (simp add: closed_def startsWithPlan_snoc)
  show "startsWithPlan (publicKey kp) mint rs
            (tr @ [Ev (GetConfigCreationLookupTableTransactions (publicKey kp) mint rs) True]) \<and>
        startsWithPlan (publicKey kp) mint rs
            (tr @ [Ev (GetConfigCreationLookupTableTransactions (publicKey kp) mint rs) False])"
    if "tr = []" for tr
    using that by (auto simp: startsWithPlan_def)
qed (use assms in \<open>simp_all add: startsWithPlan_snoc\<close>)

lemma closed_lutFree: "closed (\<lambda>c. \<not> lutCall c) (lutFree n) (lutFree n)"
  by (simp add: closed_def lutFree_def)

lemma preCall_not_lut: "preCall c \<Longrightarrow> \<not> lutCall c"
  by (cases c) simp_all

lemma configCall_not_lut: "configCall c \<Longrightarrow> \<not> lutCall c"
  by (cases c) auto

lemma launchCall_not_lut: "launchCall c \<Longrightarrow> \<not> lutCall c"
  by (cases c) simp_all

lemma lookup_lutFree:
  assumes "length rs = n"
  shows "triple h0 (lutFree n) (handleLookupTables sdk kp mint rs) (\<lambda>_. lutFree n) (lutFree n)"
proof (rule triple_handleLookupTables[where ?I1.0 = "lutFree n" and ?I2.0 = "lutFree n"
        and ?I3.0 = "lutFree n"])
  show "15 < length rs \<Longrightarrow> closed (sendCall LutExtend) (lutFree n) (lutFree n)"
    using assms by (simp add: closed_def lutFree_def)
qed (use assms in \<open>simp_all add: lutFree_def\<close>)

lemma launch_lutFree:
  "triple h0 (lutFree (length (feeClaimers params))) (launchWithFeeShare sdk kp params)
     (\<lambda>_. lutFree (length (feeClaimers params))) (lutFree (length (feeClaimers params)))"
proof (rule triple_launchWithFeeShare[where ?I1.0 = "lutFree (length (feeClaimers params))"
        and ?I2.0 = "lutFree (length (feeClaimers params))"])
  show "\<And>mint rs. list_all2 keptShare (feeClaimers params) rs \<Longrightarrow>
         triple h0 (lutFree (length (feeClaimers params))) (handleLookupTables sdk kp mint rs)
           (\<lambda>_. lutFree (length (feeClaimers params))) (lutFree (length (feeClaimers params)))"
    by (rule lookup_lutFree) (simp add: list_all2_lengthD)
qed (simp_all add: closed_mono[OF closed_lutFree] preCall_not_lut configCall_not_lut launchCall_not_lut,
     simp_all add: lutFree_def)

section \<open>The wait before the table extensions\<close>

lemma settled_snoc: "settled tr \<Longrightarrow> settled (tr @ [e])"
  unfolding settled_def
proof -
  assume "\<exists>a c d ctx. tr = a @ Ev (SignAndSendTransaction LutCreation ctx None) True # c
                        @ Ev (WaitForSlotsToPass 1) True # d"
  then obtain a c d ctx where "tr = a @ Ev (SignAndSendTransaction LutCreation ctx None) True # c
                        @ Ev (WaitForSlotsToPass 1) True # d" by blast
  then have "tr @ [e] = a @ Ev (SignAndSendTransaction LutCreation ctx None) True # c
                        @ Ev (WaitForSlotsToPass 1) True # (d @ [e])" by simp
  then show "\<exists>a c d ctx. tr @ [e] = a @ Ev (SignAndSendTransaction LutCreation ctx None) True # c
                        @ Ev (WaitForSlotsToPass 1) True # d" by blast
qed

lemma settled_after_wait:
  "settled (a @ [Ev (SignAndSendTransaction LutCreation ctx None) True] @ [Ev (WaitForSlotsToPass 1) True])"
  unfolding settled_def
  by (rule exI[where x = a], rule exI[where x = "[]"], rule exI[where x = "[]"], rule exI[where x = ctx]) simp

lemma snoc_split:
  assumes "tr @ [e] = pre @ x # post"
  shows "(post = [] \<and> pre = tr \<and> x = e) \<or> (\<exists>post'. post = post' @ [e] \<and> tr = pre @ x # post')"
proof (cases post rule: rev_cases)
  case Nil
  with assms show ?thesis by simp
next
  case (snoc post' y)
  with assms have "tr @ [e] = (pre @ x # post') @ [y]" by simp
  then have "tr = pre @ x # post'" and "e = y" by simp_all
  with snoc show ?thesis by simp
qed

lemma extends_snoc_other:
  assumes "extendsAfterSettling tr" and "\<not> extendCall c"
  shows "extendsAfterSettling (tr @ [Ev c b])"
  unfolding extendsAfterSettling_def
proof (intro allI impI)
  fix pre x post assume a: "tr @ [Ev c b] = pre @ x # post \<and> isExtend x"
  from snoc_split[of tr "Ev c b" pre x post] a assms(2)
  obtain post' where "tr = pre @ x # post'" by auto
  with assms(1) a show "settled pre" unfolding extendsAfterSettling_def by blast
qed

lemma extends_snoc_settled:
  assumes "extendsAfterSettling tr" and "settled tr"
  shows "extendsAfterSettling (tr @ [e])"
  unfolding extendsAfterSettling_def
proof (intro allI impI)
  fix pre x post assume a: "tr @ [e] = pre @ x # post \<and> isExtend x"
  from snoc_split[of tr e pre x post] a
  consider "pre = tr" | post' where "tr = pre @ x # post'" by auto
  then show "settled pre"
  proof cases
    case 1
    with assms(2) show ?thesis by simp
  next
    case 2
    with assms(1) a show ?thesis unfolding extendsAfterSettling_def by blast
  qed
qed

lemma extends_Nil: "extendsAfterSettling []"
  by (simp add: extendsAfterSettling_def)

lemma closed_extends:
  "closed (\<lambda>c. \<not> extendCall c) extendsAfterSettling extendsAfterSettling"
  by (simp add: closed_def extends_snoc_other)

lemma closed_extends_settled:
  "closed fp (\<lambda>tr. extendsAfterSettling tr \<and> settled tr) extendsAfterSettling"
  by (simp add: closed_def extends_snoc_settled settled_snoc)

lemma preCall_not_extend: "preCall c \<Longrightarrow> \<not> extendCall c"
  by (cases c) simp_all

lemma configCall_not_extend: "configCall c \<Longrightarrow> \<not> extendCall c"
  by (cases c) auto

lemma launchCall_not_extend: "launchCall c \<Longrightarrow> \<not> extendCall c"
  by (cases c) simp_all

lemma lookup_extends:
  "triple h0 extendsAfterSettling (handleLookupTables sdk kp mint rs)
     (\<lambda>_. extendsAfterSettling) extendsAfterSettling"
proof (rule triple_handleLookupTables[where
      ?I1.0 = extendsAfterSettling
      and ?I2.0 = "\<lambda>tr. extendsAfterSettling tr \<and>
                     (\<exists>a ctx. tr = a @ [Ev (SignAndSendTransaction LutCreation ctx None) True])"
      and ?I3.0 = "\<lambda>tr. extendsAfterSettling tr \<and> settled tr"])
  show "\<And>tr. extendsAfterSettling tr \<Longrightarrow> extendsAfterSettling tr" .
  show "\<And>tr. extendsAfterSettling tr \<Longrightarrow>
          extendsAfterSettling
           (tr @ [Ev (GetConfigCreationLookupTableTransactions (publicKey kp) mint rs) True]) \<and>
          extendsAfterSettling
           (tr @ [Ev (GetConfigCreationLookupTableTransactions (publicKey kp) mint rs) False])"
    by (simp add: extends_snoc_other)
  show "\<And>tr tx. extendsAfterSettling tr \<Longrightarrow>
             (extendsAfterSettling (tr @ [Ev (SignAndSendTransaction LutCreation tx None) True]) \<and>
              (\<exists>a ctx. tr @ [Ev (SignAndSendTransaction LutCreation tx None) True] =
                       a @ [Ev (SignAndSendTransaction LutCreation ctx None) True])) \<and>
             extendsAfterSettling (tr @ [Ev (SignAndSendTransaction LutCreation tx None) False])"
    by (simp add: extends_snoc_other)
  show "\<And>tr. extendsAfterSettling tr \<and>
           (\<exists>a ctx. tr = a @ [Ev (SignAndSendTransaction LutCreation ctx None) True]) \<Longrightarrow>
           (extendsAfterSettling (tr @ [Ev (WaitForSlotsToPass 1) True]) \<and>
            settled (tr @ [Ev (WaitForSlotsToPass 1) True])) \<and>
           extendsAfterSettling (tr @ [Ev (WaitForSlotsToPass 1) False])"
    using settled_after_wait by (auto simp: extends_snoc_other)
  show "closed (sendCall LutExtend) (\<lambda>tr. extendsAfterSettling tr \<and> settled tr) extendsAfterSettling"
    by (rule closed_extends_settled)
  show "\<And>tr. extendsAfterSettling tr \<and> settled tr \<Longrightarrow> extendsAfterSettling tr" by simp
qed

lemma launch_extends:
  "triple h0 extendsAfterSettling (launchWithFeeShare sdk kp params)
     (\<lambda>_. extendsAfterSettling) extendsAfterSettling"
  by (rule triple_launchWithFeeShare[where ?I1.0 = extendsAfterSettling and ?I2.0 = extendsAfterSettling])
     (simp_all add: lookup_extends extends_snoc_other
        closed_mono[OF closed_extends] preCall_not_extend configCall_not_extend launchCall_not_extend)

text \<open>
  Claim C3. In every run of \<^verbatim>\<open>launchWithFeeShare\<close>, whatever the SDK answers, each
  table extension is submitted only after the table creation was accepted and, after
  that, \<^verbatim>\<open>waitForSlotsToPass\<close> for one slot returned. The script makes the wait itself;
  when the creation or the wait throws, no extension is submitted.
\<close>

theorem extend_only_after_slot_wait:
  "\<exists>tr. snd (launchWithFeeShare sdk kp params h) = h @ tr \<and> extendsAfterSettling tr"
proof -
  obtain r h' where run: "launchWithFeeShare sdk kp params h = (r, h')"
    by (cases "launchWithFeeShare sdk kp params h")
  from triple_run[OF launch_extends extends_Nil run] run show ?thesis
    by (cases r) auto
qed

theorem extend_only_after_slot_wait_witness:
  "snd (launchWithFeeShare demoSdk demoKeypair (demoParams sixteenClaimers) []) = sixteenTrace
   \<and> isExtend (sixteenTrace ! 4)
   \<and> settled (take 4 sixteenTrace)"
proof -
  from extend_only_after_slot_wait[of demoSdk demoKeypair "demoParams sixteenClaimers" "[]"]
  have ext: "extendsAfterSettling sixteenTrace"
    by (simp add: demo_sixteen_run)
  have split: "sixteenTrace = take 4 sixteenTrace @ sixteenTrace ! 4 # drop 5 sixteenTrace"
    by (simp add: sixteenTrace_def)
  have e: "isExtend (sixteenTrace ! 4)"
    by (simp add: sixteenTrace_def)
  from ext split e have "settled (take 4 sixteenTrace)"
    unfolding extendsAfterSettling_def by blast
  with e show ?thesis by (simp add: demo_sixteen_run)
qed

section \<open>The order of the ledger operations\<close>

lemma stages_snoc: "stages (tr @ [e]) = stages tr @ (case stage e of None \<Rightarrow> [] | Some n \<Rightarrow> [n])"
  by (simp add: stages_def List.map_filter_def split: option.splits)

lemma stages_Nil: "stages [] = []"
  by (simp add: stages_def List.map_filter_def)

lemma launch_stage: "isLaunchSubmission e \<Longrightarrow> stage e = Some 5"
  by (erule isLaunchSubmission.elims) simp

lemma config_stage: "isConfigSubmission e \<Longrightarrow> stage e = Some 4"
  by (erule isConfigSubmission.elims) simp_all

lemma stage_in_stages: "e \<in> set tr \<Longrightarrow> stage e = Some n \<Longrightarrow> n \<in> set (stages tr)"
  by (force simp: stages_def List.map_filter_def)

lemma invL_no_launch:
  assumes "invL k cfg tr" and "k < 5"
  shows "\<not> list_ex isLaunchSubmission tr"
proof
  assume "list_ex isLaunchSubmission tr"
  then obtain e where e: "e \<in> set tr" "isLaunchSubmission e"
    by (auto simp: list_ex_iff)
  then have "5 \<in> set (stages tr)"
    by (simp add: stage_in_stages launch_stage)
  with assms(1) have "5 \<le> k" by (simp add: invL_def)
  with assms(2) show False by simp
qed

lemma invL_exit: "invL k cfg tr \<Longrightarrow> k < 5 \<or> cfg \<Longrightarrow> launchOrdered tr"
  using invL_no_launch[of k cfg tr] by (auto simp: launchOrdered_def invL_def)

lemma invL_weaken: "invL k cfg tr \<Longrightarrow> k \<le> k' \<Longrightarrow> invL k' cfg tr"
  by (fastforce simp: invL_def)

lemma invL_Nil: "invL k False []"
  by (simp add: invL_def stages_Nil)

lemma invL_snoc:
  assumes "invL k cfg tr" and "callStage c = None \<or> callStage c = Some k"
    and "isConfigSubmission (Ev c b) \<longrightarrow> b"
  shows "invL k cfg (tr @ [Ev c b])"
  using assms by (auto simp: invL_def stages_snoc sorted_append split: option.splits)

lemma invL_snoc_fail:
  assumes "invL k cfg tr" and "callStage c = None \<or> callStage c = Some k" and "k < 5 \<or> cfg"
  shows "launchOrdered (tr @ [Ev c False])"
proof (cases "k < 5")
  case True
  have "\<not> list_ex isLaunchSubmission tr" using invL_no_launch[OF assms(1) True] .
  moreover have "\<not> isLaunchSubmission (Ev c False)"
    using assms(2) True launch_stage[of "Ev c False"] by auto
  ultimately show ?thesis
    using assms(1,2) by (auto simp: launchOrdered_def invL_def stages_snoc sorted_append split: option.splits)
next
  case False
  with assms(3) have cfg: cfg by simp
  have "\<not> isConfigSubmission (Ev c False)"
    using assms(2) False config_stage[of "Ev c False"] by auto
  with cfg assms(1,2) show ?thesis
    by (auto simp: launchOrdered_def invL_def stages_snoc sorted_append split: option.splits)
qed

lemma closed_invL:
  assumes "k < 5 \<or> cfg"
  shows "closed (\<lambda>c. (callStage c = None \<or> callStage c = Some k)) (invL k cfg) launchOrdered"
  unfolding closed_def
proof (intro conjI allI impI)
  fix tr assume "invL k cfg tr"
  then show "launchOrdered tr" using assms by (rule invL_exit)
next
  fix tr c assume a: "invL k cfg tr \<and> (callStage c = None \<or> callStage c = Some k)"
  then show "invL k cfg (tr @ [Ev c True])" by (simp add: invL_snoc)
  show "if c = GetJitoRecentFees then invL k cfg (tr @ [Ev c False])
        else launchOrdered (tr @ [Ev c False])"
  proof (cases "c = GetJitoRecentFees")
    case True
    with a show ?thesis by (simp add: invL_snoc)
  next
    case False
    from a have "invL k cfg tr" and "callStage c = None \<or> callStage c = Some k" by simp_all
    from invL_snoc_fail[OF this assms] False show ?thesis by simp
  qed
qed

lemma preCall_stage: "preCall c \<Longrightarrow> callStage c = None \<or> callStage c = Some 0"
  by (cases c) simp_all

lemma configCall_stage: "configCall c \<Longrightarrow> callStage c = None \<or> callStage c = Some 4"
  by (cases c) auto

lemma launchCall_stage: "launchCall c \<Longrightarrow> callStage c = None \<or> callStage c = Some 5"
  by (cases c) simp_all

lemma extendSend_stage: "sendCall LutExtend c \<Longrightarrow> callStage c = None \<or> callStage c = Some 3"
  by (cases c) simp_all

lemma invL_step:
  assumes "invL k cfg tr" and "k \<le> k'" and "callStage c = Some k'" and "isConfigSubmission (Ev c b) \<longrightarrow> b"
  shows "invL k' cfg (tr @ [Ev c b])"
  by (rule invL_snoc[OF invL_weaken[OF assms(1,2)]]) (simp_all add: assms)

lemma invL_step_fail:
  assumes "invL k cfg tr" and "k \<le> k'" and "callStage c = Some k'" and "k' < 5 \<or> cfg"
  shows "launchOrdered (tr @ [Ev c False])"
  by (rule invL_snoc_fail[OF invL_weaken[OF assms(1,2)]]) (simp_all add: assms)

lemma invL_config_created:
  assumes "invL k cfg tr" and "k \<le> 4"
  shows "invL 4 True (tr @ [Ev (CreateBagsFeeShareConfig ps) True])"
  using invL_snoc[OF invL_weaken[OF assms], of "CreateBagsFeeShareConfig ps" True]
  by (simp add: invL_def)

lemma lookup_ordered:
  "triple h0 (invL 0 False) (handleLookupTables sdk kp mint rs) (\<lambda>_. invL 3 False) launchOrdered"
proof (rule triple_handleLookupTables[where
      ?I1.0 = "invL 1 False" and ?I2.0 = "invL 1 False" and ?I3.0 = "invL 3 False"])
  show "\<And>tr. invL 0 False tr \<Longrightarrow> invL 3 False tr"
    by (erule invL_weaken) simp
  show "\<And>tr. invL 0 False tr \<Longrightarrow>
          invL 1 False (tr @ [Ev (GetConfigCreationLookupTableTransactions (publicKey kp) mint rs) True]) \<and>
          launchOrdered (tr @ [Ev (GetConfigCreationLookupTableTransactions (publicKey kp) mint rs) False])"
    by (simp add: invL_step[where k = 0] invL_step_fail[where k = 0 and k' = 1])
  show "\<And>tr tx. invL 1 False tr \<Longrightarrow>
             invL 1 False (tr @ [Ev (SignAndSendTransaction LutCreation tx None) True]) \<and>
             launchOrdered (tr @ [Ev (SignAndSendTransaction LutCreation tx None) False])"
    by (simp add: invL_step[where k = 1] invL_step_fail[where k = 1 and k' = 1])
  show "invL 3 False (tr @ [Ev (WaitForSlotsToPass 1) True]) \<and>
        launchOrdered (tr @ [Ev (WaitForSlotsToPass 1) False])" if a: "invL 1 False tr" for tr
  proof
    have "invL 2 False (tr @ [Ev (WaitForSlotsToPass 1) True])"
      by (rule invL_step[OF a]) simp_all
    then show "invL 3 False (tr @ [Ev (WaitForSlotsToPass 1) True])"
      by (rule invL_weaken) simp
    show "launchOrdered (tr @ [Ev (WaitForSlotsToPass 1) False])"
      by (rule invL_step_fail[OF a, where k' = 2]) simp_all
  qed
  show "closed (sendCall LutExtend) (invL 3 False) launchOrdered"
    by (rule closed_mono[OF closed_invL[of 3 False]]) (simp_all add: extendSend_stage)
  show "\<And>tr. invL 3 False tr \<Longrightarrow> invL 3 False tr" .
qed

lemma launch_ordered:
  "triple h0 (invL 0 False) (launchWithFeeShare sdk kp params) (\<lambda>_. invL 5 True) launchOrdered"
proof (rule triple_launchWithFeeShare[where ?I1.0 = "invL 3 False" and ?I2.0 = "invL 4 True"])
  show "closed preCall (invL 0 False) launchOrdered"
    by (rule closed_mono[OF closed_invL[of 0 False]]) (simp_all add: preCall_stage)
  show "\<And>mint rs. triple h0 (invL 0 False) (handleLookupTables sdk kp mint rs) (\<lambda>_. invL 3 False) launchOrdered"
    by (rule lookup_ordered)
  show "\<And>tr mint rs luts. invL 3 False tr \<Longrightarrow>
       invL 4 True (tr @ [Ev (CreateBagsFeeShareConfig
                        \<lparr>payer = publicKey kp, baseMint = mint, configClaimers = rs,
                         partner = None, partnerConfig = None, additionalLookupTables = luts\<rparr>) True]) \<and>
       launchOrdered (tr @ [Ev (CreateBagsFeeShareConfig
                        \<lparr>payer = publicKey kp, baseMint = mint, configClaimers = rs,
                         partner = None, partnerConfig = None, additionalLookupTables = luts\<rparr>) False])"
    by (simp add: invL_config_created[where k = 3] invL_step_fail[where k = 3 and k' = 4])
  show "closed configCall (invL 4 True) launchOrdered"
    by (rule closed_mono[OF closed_invL[of 4 True]]) (simp_all add: configCall_stage)
  show "\<And>tr. invL 4 True tr \<Longrightarrow> invL 5 True tr"
    by (erule invL_weaken) simp
  show "closed launchCall (invL 5 True) launchOrdered"
    by (rule closed_mono[OF closed_invL[of 5 True]]) (simp_all add: launchCall_stage)
qed

lemma launchToken_ordered:
  "triple h0 (invL 0 False) (launchToken sdk kp params) (\<lambda>_. invL 5 True) launchOrdered"
proof -
  have meta: "\<And>info. triple h0 (invL 0 False)
      (callSdk (CreateTokenInfoAndMetadata info) (\<lambda>h. createTokenInfoAndMetadata sdk h info))
      (\<lambda>_. invL 0 False) launchOrdered"
    by (rule triple_call_closed[OF closed_invL[of 0 False]]) simp_all
  have cf: "triple h0 (invL 0 False) (createFeeConfig sdk kp ps) (\<lambda>_. invL 5 True) launchOrdered" for ps
  proof -
    have "triple h0 (invL 0 False) (createFeeConfig sdk kp ps) (\<lambda>_. invL 4 True) launchOrdered"
      by (rule triple_createFeeConfig[OF closed_invL[of 4 True], where I = "invL 0 False"])
         (simp_all add: configCall_stage invL_config_created[where k = 0]
            invL_step_fail[where k = 0 and k' = 4])
    then show ?thesis
      by (rule triple_weaken) (simp_all add: invL_weaken[where k = 4 and k' = 5])
  qed
  have la: "\<And>mint metadata buySol cfgKey.
      triple h0 (invL 5 True) (sendLaunch sdk kp mint metadata buySol cfgKey) (\<lambda>_. invL 5 True) launchOrdered"
    by (rule triple_sendLaunch[OF closed_invL[of 5 True]]) (simp_all add: launchCall_stage)
  show ?thesis
    unfolding launchToken_def
    apply (rule triple_bindP[where R = "\<lambda>_. invL 0 False"], rule meta)
    apply (simp only: split_paired_all prod.case)
    apply (rule triple_bindP[where R = "\<lambda>_. invL 5 True"], rule cf)
    apply (rule la)
    done
qed

section \<open>Recipients that resolve to the same wallet\<close>


lemma preCall_not_config: "preCall c \<Longrightarrow> \<not> configCreateCall c"
  by (cases c) simp_all

lemma configCall_not_config: "configCall c \<Longrightarrow> \<not> configCreateCall c"
  by (cases c) auto

lemma launchCall_not_config: "launchCall c \<Longrightarrow> \<not> configCreateCall c"
  by (cases c) simp_all

lemma sendCall_not_config: "sendCall s c \<Longrightarrow> \<not> configCreateCall c"
  by (cases c) simp_all





section \<open>Claiming all positions\<close>

lemma attempts_snoc:
  "attempts (tr @ [e]) = attempts tr @ (case attempt e of None \<Rightarrow> [] | Some p \<Rightarrow> [p])"
  by (simp add: attempts_def List.map_filter_def split: option.splits)

lemma failures_snoc: "failures (tr @ [e]) = failures tr + (if outcome e then 0 else 1)"
  by (simp add: failures_def)

lemma claimed_Nil: "claimed [] 0 []"
  by (simp add: claimed_def attempts_def failures_def List.map_filter_def)

lemma claim_send:
  "triple h0 (claimed ps f) (signAndSend sdk ClaimTransaction tx)
     (\<lambda>_. claimed ps f) (claimed ps (Suc f))"
  unfolding signAndSend_def
proof (rule triple_bindP[where R = "\<lambda>_. claimed ps f"])
  show "triple h0 (claimed ps f)
          (callSdk (SignAndSendTransaction ClaimTransaction tx None)
             (\<lambda>h. signAndSendTransaction sdk h tx None))
          (\<lambda>_. claimed ps f) (claimed ps (Suc f))"
    by (rule triple_callSdk) (simp_all add: claimed_def attempts_snoc failures_snoc)
  show "\<And>x. triple h0 (claimed ps f) (returnP ()) (\<lambda>_. claimed ps f) (claimed ps (Suc f))"
    by (rule triple_returnP)
qed

lemma claim_sends:
  "triple h0 (claimed ps f) (forEachP (signAndSend sdk ClaimTransaction) txs)
     (\<lambda>_. claimed ps f) (claimed ps (Suc f))"
  by (rule triple_forEachP) (rule claim_send)

lemma claimPosition_triple:
  "triple h0 (claimed ps f) (claimPosition sdk w p)
     (\<lambda>_. claimed (ps @ [p]) f) (claimed (ps @ [p]) (Suc f))"
  unfolding claimPosition_def
proof (rule triple_bindP[where R = "\<lambda>_. claimed (ps @ [p]) f"])
  show "triple h0 (claimed ps f)
          (callSdk (GetClaimTransaction w p) (\<lambda>h. getClaimTransaction sdk h w p))
          (\<lambda>_. claimed (ps @ [p]) f) (claimed (ps @ [p]) (Suc f))"
    by (rule triple_callSdk) (simp_all add: claimed_def attempts_snoc failures_snoc)
  show "\<And>txs. triple h0 (claimed (ps @ [p]) f) (forEachP (signAndSend sdk ClaimTransaction) txs)
          (\<lambda>_. claimed (ps @ [p]) f) (claimed (ps @ [p]) (Suc f))"
    by (rule claim_sends)
qed

lemma claimLoop_triple:
  "triple h0 (claimed seen f) (claimLoop sdk w ps s f)
     (\<lambda>(s', f') tr. claimed (seen @ ps) f' tr \<and> s' + f' = s + f + length ps) (\<lambda>_. False)"
proof (induction ps arbitrary: seen s f)
  case Nil
  show ?case by (simp, rule triple_returnP) simp
next
  case (Cons p ps)
  let ?R = "\<lambda>(s1, f1) tr. claimed (seen @ [p]) f1 tr \<and> s1 + f1 = Suc (s + f)"
  have one: "triple h0 (claimed seen f)
      (catchP (bindP (claimPosition sdk w p) (\<lambda>_. returnP (s + 1, f))) (\<lambda>e. returnP (s, f + 1)))
      ?R (\<lambda>_. False)"
  proof (rule triple_catchP[where R = "claimed (seen @ [p]) (Suc f)"])
    show "triple h0 (claimed seen f) (bindP (claimPosition sdk w p) (\<lambda>_. returnP (s + 1, f)))
            ?R (claimed (seen @ [p]) (Suc f))"
      by (rule triple_bindP[where R = "\<lambda>_. claimed (seen @ [p]) f"], rule claimPosition_triple,
          rule triple_returnP) simp
    show "\<And>e. triple h0 (claimed (seen @ [p]) (Suc f)) (returnP (s, f + 1)) ?R (\<lambda>_. False)"
      by (rule triple_returnP) simp
  qed
  have rest: "triple h0 (?R x) (case x of (s', f') \<Rightarrow> claimLoop sdk w ps s' f')
      (\<lambda>(s', f') tr. claimed (seen @ p # ps) f' tr \<and> s' + f' = s + f + length (p # ps))
      (\<lambda>_. False)" for x
  proof (cases x)
    case (Pair s1 f1)
    have "triple h0 (\<lambda>tr. claimed (seen @ [p]) f1 tr \<and> s1 + f1 = Suc (s + f))
            (claimLoop sdk w ps s1 f1)
            (\<lambda>(s', f') tr. claimed (seen @ p # ps) f' tr \<and> s' + f' = s + f + length (p # ps))
            (\<lambda>_. False)"
      by (rule triple_assume, rule triple_weaken[OF Cons.IH[of "seen @ [p]" f1 s1]]) auto
    with Pair show ?thesis by simp
  qed
  show ?case
    by (simp only: claimLoop.simps, rule triple_bindP[where R = ?R], rule one, rule rest)
qed

text \<open>
  Claim C7. When the positions were listed and there is at least one, \<^verbatim>\<open>claimAll\<close>
  returns its report whatever happens while claiming: every position is attempted, once
  and in order; the two counts add up to the number of positions; and the failure count
  is the number of calls that threw, one for each failed position.
\<close>

theorem claimAll_continues_after_failure:
  assumes "getAllClaimablePositions sdk h (case walletArg of Some w' \<Rightarrow> w' | None \<Rightarrow> publicKey kp)
             = Inr positions"
    and "positions \<noteq> []"
  shows "\<exists>s f tr.
           claimAll sdk kp walletArg h =
             (Inr (Some (s, f)),
              h @ Ev (GetAllClaimablePositions
                        (case walletArg of Some w' \<Rightarrow> w' | None \<Rightarrow> publicKey kp)) True # tr)
           \<and> attempts tr = positions
           \<and> s + f = length positions
           \<and> f = failures tr"
proof -
  let ?w = "case walletArg of Some w' \<Rightarrow> w' | None \<Rightarrow> publicKey kp"
  let ?h0 = "h @ [Ev (GetAllClaimablePositions ?w) True]"
  obtain r h' where run: "claimLoop sdk ?w positions 0 0 ?h0 = (r, h')"
    by (cases "claimLoop sdk ?w positions 0 0 ?h0")
  from triple_run[OF claimLoop_triple claimed_Nil run]
  obtain s f tr where res: "r = Inr (s, f)" "h' = ?h0 @ tr" "claimed positions f tr"
      "s + f = length positions"
    by (cases r) auto
  from assms run res have "claimAll sdk kp walletArg h = (Inr (Some (s, f)), ?h0 @ tr)"
    by (simp add: claimAll_def Let_def bindP_def callSdk_def returnP_def)
  with res show ?thesis by (auto simp: claimed_def)
qed

theorem claimAll_continues_after_failure_witness:
  "claimAll demoSdk demoKeypair None []
     = (Inr (Some (2, 1)), Ev (GetAllClaimablePositions ''Creator'') True # claimTrace)
   \<and> attempts claimTrace = demoPositions
   \<and> 2 + 1 = length demoPositions
   \<and> failures claimTrace = 1"
  using claimAll_continues_after_failure[where sdk = demoSdk and h = "[]" and walletArg = None and kp = demoKeypair
             and positions = demoPositions]
  by (simp add: demo_claim_run)
     (simp add: demo_defs demoPositions_def claimTrace_def attempts_def failures_def
        List.map_filter_def)

section \<open>The partner key is created once\<close>

lemma createPartnerKey_handle:
  assumes "createPartnerKey sdk kp pw h = (Inr x, h')"
  shows "x = deriveBagsFeeShareV2PartnerConfigPda sdk (case pw of Some w \<Rightarrow> w | None \<Rightarrow> publicKey kp)"
  using assms
  by (auto simp: createPartnerKey_def Let_def bindP_def catchP_def callSdk_def returnP_def throwP_def
      split: sum.splits if_splits prod.splits)

lemma createPartnerKey_existing:
  assumes "getPartnerConfig sdk h (case pw of Some w \<Rightarrow> w | None \<Rightarrow> publicKey kp) = Inr existing"
  shows "createPartnerKey sdk kp pw h =
           (Inr (deriveBagsFeeShareV2PartnerConfigPda sdk (case pw of Some w \<Rightarrow> w | None \<Rightarrow> publicKey kp)),
            h @ [Ev (GetPartnerConfig (case pw of Some w \<Rightarrow> w | None \<Rightarrow> publicKey kp)) True])"
  using assms
  by (simp add: createPartnerKey_def Let_def bindP_def catchP_def callSdk_def returnP_def)

text \<open>
  Claim C9. When a partner config already exists for the wallet, \<^verbatim>\<open>createPartnerKey\<close>
  returns after the lookup, with no creation request and no transaction, and returns the
  same address as the run that registered first.
\<close>

theorem createPartnerKey_idempotent:
  assumes "createPartnerKey sdk kp pw h1 = (Inr first, h2)"
    and "getPartnerConfig sdk h3 (case pw of Some w \<Rightarrow> w | None \<Rightarrow> publicKey kp) = Inr existing"
  shows "createPartnerKey sdk kp pw h3 =
           (Inr first, h3 @ [Ev (GetPartnerConfig (case pw of Some w \<Rightarrow> w | None \<Rightarrow> publicKey kp)) True])"
  using createPartnerKey_handle[OF assms(1)] createPartnerKey_existing[OF assms(2)] by simp

theorem createPartnerKey_idempotent_witness:
  "createPartnerKey demoSdk demoKeypair None [] = (Inr ''pda-Creator'', partnerTrace)
   \<and> createPartnerKey demoSdk demoKeypair None partnerTrace
       = (Inr ''pda-Creator'', partnerTrace @ [Ev (GetPartnerConfig ''Creator'') True])"
  using createPartnerKey_idempotent[OF demo_partner_first, where ?h3.0 = partnerTrace
              and existing = "\<lparr>partnerWallet = ''Creator'', partnerBps = 2500, totalClaimedFees = 0\<rparr>"]
        demo_partner_first demo_partner_exists
  by (simp add: demoKeypair_def)

section \<open>Lookup tables exactly above 15 recipients\<close>

lemma triple_post:
  assumes "triple h0 P m Q E"
    and "\<And>tr x tr'. P tr \<Longrightarrow> m (h0 @ tr) = (Inr x, h0 @ tr') \<Longrightarrow> Q' x tr'"
  shows "triple h0 P m (\<lambda>x tr'. Q x tr' \<and> Q' x tr') E"
  unfolding triple_def
proof (intro allI impI)
  fix tr assume P: "P tr"
  obtain r h' where run: "m (h0 @ tr) = (r, h')" by (cases "m (h0 @ tr)")
  from tripleD[OF assms(1) P] run assms(2)[OF P]
  show "case m (h0 @ tr) of
           (Inr x, h') \<Rightarrow> \<exists>tr'. h' = h0 @ tr' \<and> Q x tr' \<and> Q' x tr'
         | (Inl e, h') \<Rightarrow> \<exists>tr'. h' = h0 @ tr' \<and> E tr'"
    by (cases r) auto
qed

lemma triple_launch_steps:
  assumes pre: "closed preCall I0 E"
    and lut: "\<And>mint rs. list_all2 keptShare (feeClaimers params) rs \<Longrightarrow>
                triple h0 I0 (handleLookupTables sdk kp mint rs) (\<lambda>luts. I1 mint rs luts) E"
    and cfg: "\<And>mint rs luts. list_all2 keptShare (feeClaimers params) rs \<Longrightarrow>
        triple h0 (I1 mint rs luts)
          (createFeeConfig sdk kp
             \<lparr>payer = publicKey kp, baseMint = mint, configClaimers = rs,
              partner = None, partnerConfig = None, additionalLookupTables = luts\<rparr>)
          (\<lambda>_. I3) E"
    and fin: "closed launchCall I3 E"
  shows "triple h0 I0 (launchWithFeeShare sdk kp params) (\<lambda>_. I3) E"
proof (cases "validateBps (feeClaimers params)")
  case (Inl e)
  then show ?thesis
    by (simp add: launchWithFeeShare_def triple_throwP closedD_exit[OF pre])
next
  case (Inr u)
  let ?K = "list_all2 keptShare (feeClaimers params)"
  have meta: "\<And>info. triple h0 I0
      (callSdk (CreateTokenInfoAndMetadata info) (\<lambda>h. createTokenInfoAndMetadata sdk h info)) (\<lambda>_. I0) E"
    by (rule triple_call_closed[OF pre]) simp_all
  have res: "triple h0 I0 (resolveFeeClaimers sdk (feeClaimers params) [])
      (\<lambda>rs tr. I0 tr \<and> ?K rs) E"
    by (rule triple_result, rule triple_resolveFeeClaimers[OF pre])
       (simp_all add: resolveFeeClaimers_kept resolveCall_preCall)
  have lut': "\<And>mint rs. triple h0 (\<lambda>tr. I0 tr \<and> ?K rs)
      (handleLookupTables sdk kp mint rs)
      (\<lambda>luts tr. I1 mint rs luts tr \<and> ?K rs) E"
    by (rule triple_assume) (rule triple_weaken[OF lut], simp_all)
  have cf: "triple h0 (\<lambda>tr. I1 mint rs luts tr \<and> ?K rs)
      (createFeeConfig sdk kp
         \<lparr>payer = publicKey kp, baseMint = mint, configClaimers = rs,
          partner = None, partnerConfig = None, additionalLookupTables = luts\<rparr>)
      (\<lambda>_. I3) E" for mint rs luts
    by (rule triple_assume) (rule cfg)
  have la: "\<And>mint metadata buySol cfgKey.
      triple h0 I3 (sendLaunch sdk kp mint metadata buySol cfgKey) (\<lambda>_. I3) E"
    by (rule triple_sendLaunch[OF fin])
  from Inr show ?thesis
    unfolding launchWithFeeShare_def
    apply (simp only: sum.case)
    apply (rule triple_bindP[where R = "\<lambda>_. I0"], rule meta)
    apply (simp only: split_paired_all prod.case)
    apply (rule triple_bindP[where R = "\<lambda>rs tr. I0 tr \<and> ?K rs"], rule res)
    apply (rule triple_bindP[where R = "\<lambda>luts tr. I1 mint rs luts tr \<and> ?K rs" for mint rs], rule lut')
    apply (rule triple_bindP[where R = "\<lambda>_. I3"], rule cf)
    apply (rule la)
    done
qed

lemma sends_returned:
  "forEachP (signAndSend sdk s) txs h = (Inr u, h') \<Longrightarrow>
   h' = h @ map (\<lambda>tx. Ev (SignAndSendTransaction s tx None) True) txs"
proof (induction txs arbitrary: h)
  case Nil
  then show ?case by (simp add: returnP_def)
next
  case (Cons tx txs)
  from Cons.prems obtain h1 where
    one: "signAndSend sdk s tx h = (Inr (), h1)" and rest: "forEachP (signAndSend sdk s) txs h1 = (Inr u, h')"
    by (auto simp: bindP_def split: prod.splits sum.splits)
  from one have "h1 = h @ [Ev (SignAndSendTransaction s tx None) True]"
    by (auto simp: signAndSend_def bindP_def callSdk_def returnP_def split: sum.splits)
  with Cons.IH[OF rest] show ?case by simp
qed

lemma handleLookupTables_small:
  "length rs \<le> 15 \<Longrightarrow> handleLookupTables sdk kp mint rs h = (Inr None, h)"
  by (simp add: handleLookupTables_def BAGS_FEE_SHARE_V2_MAX_CLAIMERS_NON_LUT_def returnP_def)

lemma handleLookupTables_plan_fails:
  assumes "15 < length rs"
    and "getConfigCreationLookupTableTransactions sdk h (publicKey kp) mint rs = Inl msg"
  shows "handleLookupTables sdk kp mint rs h =
           (Inl (SdkError msg),
            h @ [Ev (GetConfigCreationLookupTableTransactions (publicKey kp) mint rs) False])"
  using assms
  by (simp add: handleLookupTables_def BAGS_FEE_SHARE_V2_MAX_CLAIMERS_NON_LUT_def bindP_def callSdk_def)

lemma sends_extends:
  "\<exists>tr. snd (forEachP (signAndSend sdk s) txs h) = h @ tr"
proof (induction txs arbitrary: h)
  case Nil
  show ?case by (simp add: returnP_def)
next
  case (Cons tx txs)
  show ?case
  proof (cases "signAndSendTransaction sdk h tx None")
    case (Inl msg)
    then have "signAndSend sdk s tx h
                 = (Inl (SdkError msg), h @ [Ev (SignAndSendTransaction s tx None) False])"
      by (simp add: signAndSend_def bindP_def callSdk_def)
    then show ?thesis by (simp add: bindP_def)
  next
    case (Inr sig)
    then have one: "signAndSend sdk s tx h
                      = (Inr (), h @ [Ev (SignAndSendTransaction s tx None) True])"
      by (simp add: signAndSend_def bindP_def callSdk_def returnP_def)
    from Cons.IH[of "h @ [Ev (SignAndSendTransaction s tx None) True]"]
    obtain tr where "snd (forEachP (signAndSend sdk s) txs (h @ [Ev (SignAndSendTransaction s tx None) True]))
                      = h @ [Ev (SignAndSendTransaction s tx None) True] @ tr" by auto
    with one show ?thesis by (simp add: bindP_def)
  qed
qed

lemma handleLookupTables_creates:
  assumes "15 < length rs"
    and "getConfigCreationLookupTableTransactions sdk h (publicKey kp) mint rs = Inr lut"
  shows "\<exists>b tr. snd (handleLookupTables sdk kp mint rs h) =
           h @ Ev (GetConfigCreationLookupTableTransactions (publicKey kp) mint rs) True
             # Ev (SignAndSendTransaction LutCreation (creationTransaction lut) None) b # tr"
proof -
  let ?h1 = "h @ [Ev (GetConfigCreationLookupTableTransactions (publicKey kp) mint rs) True]"
  let ?c = "SignAndSendTransaction LutCreation (creationTransaction lut) None"
  show ?thesis
  proof (cases "signAndSendTransaction sdk ?h1 (creationTransaction lut) None")
    case (Inl msg)
    with assms show ?thesis
      by (auto simp: handleLookupTables_def BAGS_FEE_SHARE_V2_MAX_CLAIMERS_NON_LUT_def bindP_def
            callSdk_def signAndSend_def)
  next
    case created: (Inr sig)
    show ?thesis
    proof (cases "waitForSlotsToPass sdk (?h1 @ [Ev ?c True]) 1")
      case (Inl msg)
      with assms created show ?thesis
        by (auto simp: handleLookupTables_def BAGS_FEE_SHARE_V2_MAX_CLAIMERS_NON_LUT_def bindP_def
              callSdk_def signAndSend_def returnP_def)
    next
      case (Inr u)
      let ?h3 = "?h1 @ [Ev ?c True] @ [Ev (WaitForSlotsToPass 1) True]"
      obtain r h' where ext: "forEachP (signAndSend sdk LutExtend) (extendTransactions lut) ?h3 = (r, h')"
        by (cases "forEachP (signAndSend sdk LutExtend) (extendTransactions lut) ?h3")
      from sends_extends[of sdk LutExtend "extendTransactions lut" ?h3] ext
      obtain tr where tr: "h' = ?h3 @ tr" by auto
      have c: "signAndSend sdk LutCreation (creationTransaction lut) ?h1 = (Inr (), ?h1 @ [Ev ?c True])"
        using created by (simp add: signAndSend_def bindP_def callSdk_def returnP_def)
      have w: "callSdk (WaitForSlotsToPass 1) (\<lambda>h. waitForSlotsToPass sdk h 1) (?h1 @ [Ev ?c True])
                 = (Inr (), ?h3)"
        using Inr by (simp add: callSdk_def)
      from assms c w ext tr show ?thesis
        by (cases r)
           (auto simp: handleLookupTables_def BAGS_FEE_SHARE_V2_MAX_CLAIMERS_NON_LUT_def bindP_def
              callSdk_def returnP_def)
    qed
  qed
qed

lemma handleLookupTables_returned:
  assumes "15 < length rs"
    and "handleLookupTables sdk kp mint rs h = (Inr x, h')"
  shows "\<exists>lut. getConfigCreationLookupTableTransactions sdk h (publicKey kp) mint rs = Inr lut \<and>
           x = Some (lutAddresses lut) \<and> h' = h @ lutEvents kp mint rs lut"
proof -
  from assms obtain lut h1 where
    plan: "getConfigCreationLookupTableTransactions sdk h (publicKey kp) mint rs = Inr lut"
    and h1: "h1 = h @ [Ev (GetConfigCreationLookupTableTransactions (publicKey kp) mint rs) True]"
    and rest: "bindP (signAndSend sdk LutCreation (creationTransaction lut)) (\<lambda>_.
        bindP (callSdk (WaitForSlotsToPass 1) (\<lambda>h. waitForSlotsToPass sdk h 1)) (\<lambda>_.
        bindP (forEachP (signAndSend sdk LutExtend) (extendTransactions lut)) (\<lambda>_.
        returnP (Some (lutAddresses lut))))) h1 = (Inr x, h')"
    by (auto simp: handleLookupTables_def BAGS_FEE_SHARE_V2_MAX_CLAIMERS_NON_LUT_def bindP_def
          callSdk_def split: sum.splits)
  from rest obtain h2 h3 h4 where
    c: "signAndSend sdk LutCreation (creationTransaction lut) h1 = (Inr (), h2)"
    and w: "callSdk (WaitForSlotsToPass 1) (\<lambda>h. waitForSlotsToPass sdk h 1) h2 = (Inr (), h3)"
    and e: "forEachP (signAndSend sdk LutExtend) (extendTransactions lut) h3 = (Inr (), h4)"
    and x: "x = Some (lutAddresses lut)" "h' = h4"
    by (auto simp: bindP_def returnP_def split: prod.splits sum.splits)
  from c have h2: "h2 = h1 @ [Ev (SignAndSendTransaction LutCreation (creationTransaction lut) None) True]"
    by (auto simp: signAndSend_def bindP_def callSdk_def returnP_def split: sum.splits)
  from w have h3: "h3 = h2 @ [Ev (WaitForSlotsToPass 1) True]"
    by (auto simp: callSdk_def split: sum.splits)
  from sends_returned[OF e] h1 h2 h3 x plan show ?thesis
    by (simp add: lutEvents_def)
qed

lemma batched_snoc: "batched sdk kp h tr ps \<Longrightarrow> batched sdk kp h (tr @ [e]) ps"
  unfolding batched_def
proof -
  assume "\<exists>pre post lut.
        tr = pre @ lutEvents kp (baseMint ps) (configClaimers ps) lut @ post \<and>
        getConfigCreationLookupTableTransactions sdk (h @ pre) (publicKey kp) (baseMint ps)
          (configClaimers ps) = Inr lut \<and>
        additionalLookupTables ps = Some (lutAddresses lut)"
  then obtain pre post lut where
    "tr = pre @ lutEvents kp (baseMint ps) (configClaimers ps) lut @ post"
    "getConfigCreationLookupTableTransactions sdk (h @ pre) (publicKey kp) (baseMint ps)
          (configClaimers ps) = Inr lut"
    "additionalLookupTables ps = Some (lutAddresses lut)" by blast
  then have "tr @ [e] = pre @ lutEvents kp (baseMint ps) (configClaimers ps) lut @ (post @ [e]) \<and>
        getConfigCreationLookupTableTransactions sdk (h @ pre) (publicKey kp) (baseMint ps)
          (configClaimers ps) = Inr lut \<and>
        additionalLookupTables ps = Some (lutAddresses lut)" by simp
  then show "\<exists>pre post lut.
        tr @ [e] = pre @ lutEvents kp (baseMint ps) (configClaimers ps) lut @ post \<and>
        getConfigCreationLookupTableTransactions sdk (h @ pre) (publicKey kp) (baseMint ps)
          (configClaimers ps) = Inr lut \<and>
        additionalLookupTables ps = Some (lutAddresses lut)" by blast
qed

lemma noRequest_batched: "noRequest tr \<Longrightarrow> requestsBatched sdk kp h n tr"
  by (auto simp: noRequest_def requestsBatched_def list_all_iff)

lemma noRequest_snoc: "noRequest tr \<Longrightarrow> \<not> configCreateCall c \<Longrightarrow> noRequest (tr @ [Ev c b])"
  by (simp add: noRequest_def)

lemma requestsBatched_snoc:
  assumes "requestsBatched sdk kp h n tr" and "\<not> configCreateCall c"
  shows "requestsBatched sdk kp h n (tr @ [Ev c b])"
  unfolding requestsBatched_def
proof (intro allI impI)
  fix ps b' assume "Ev (CreateBagsFeeShareConfig ps) b' \<in> set (tr @ [Ev c b])"
  with assms(2) have "Ev (CreateBagsFeeShareConfig ps) b' \<in> set tr" by auto
  with assms(1) show "(15 < n \<longrightarrow> batched sdk kp h (tr @ [Ev c b]) ps) \<and>
                      (n \<le> 15 \<longrightarrow> additionalLookupTables ps = None)"
    by (auto simp: requestsBatched_def intro: batched_snoc)
qed

lemma closed_noRequest:
  "closed (\<lambda>c. \<not> configCreateCall c) noRequest (requestsBatched sdk kp h n)"
  by (simp add: closed_def noRequest_snoc noRequest_batched)

lemma closed_noRequest_self:
  "closed (\<lambda>c. \<not> configCreateCall c) noRequest noRequest"
  by (simp add: closed_def noRequest_snoc)

lemma closed_requestsBatched:
  "closed (\<lambda>c. \<not> configCreateCall c) (requestsBatched sdk kp h n) (requestsBatched sdk kp h n)"
  by (simp add: closed_def requestsBatched_snoc)

lemma request_after_lookup:
  assumes "noRequest tr" and "lutOut sdk kp h mint rs luts tr" and "length rs = n"
  shows "requestsBatched sdk kp h n
           (tr @ [Ev (CreateBagsFeeShareConfig
                        \<lparr>payer = publicKey kp, baseMint = mint, configClaimers = rs,
                         partner = None, partnerConfig = None, additionalLookupTables = luts\<rparr>) b])"
  unfolding requestsBatched_def
proof (intro allI impI)
  let ?ps0 = "\<lparr>payer = publicKey kp, baseMint = mint, configClaimers = rs,
               partner = None, partnerConfig = None, additionalLookupTables = luts\<rparr>"
  fix ps b' assume "Ev (CreateBagsFeeShareConfig ps) b' \<in> set (tr @ [Ev (CreateBagsFeeShareConfig ?ps0) b])"
  with assms(1) have ps: "ps = ?ps0"
    by (auto simp: noRequest_def list_all_iff)
  show "(15 < n \<longrightarrow> batched sdk kp h (tr @ [Ev (CreateBagsFeeShareConfig ?ps0) b]) ps) \<and>
        (n \<le> 15 \<longrightarrow> additionalLookupTables ps = None)"
  proof (intro conjI impI)
    assume "n \<le> 15"
    with assms(2,3) ps show "additionalLookupTables ps = None" by (simp add: lutOut_def)
  next
    assume "15 < n"
    with assms(2,3) obtain pre lut where
      "tr = pre @ lutEvents kp mint rs lut"
      "getConfigCreationLookupTableTransactions sdk (h @ pre) (publicKey kp) mint rs = Inr lut"
      "luts = Some (lutAddresses lut)"
      by (auto simp: lutOut_def)
    with ps have "tr @ [Ev (CreateBagsFeeShareConfig ?ps0) b]
          = pre @ lutEvents kp (baseMint ps) (configClaimers ps) lut @ [Ev (CreateBagsFeeShareConfig ?ps0) b] \<and>
        getConfigCreationLookupTableTransactions sdk (h @ pre) (publicKey kp) (baseMint ps)
          (configClaimers ps) = Inr lut \<and>
        additionalLookupTables ps = Some (lutAddresses lut)" by simp
    then show "batched sdk kp h (tr @ [Ev (CreateBagsFeeShareConfig ?ps0) b]) ps"
      unfolding batched_def by blast
  qed
qed

lemma lookup_noRequest:
  "triple h noRequest (handleLookupTables sdk kp mint rs) (\<lambda>_. noRequest) (requestsBatched sdk kp h n)"
proof (rule triple_handleLookupTables[where ?I1.0 = noRequest and ?I2.0 = noRequest
        and ?I3.0 = noRequest])
  show "closed (sendCall LutExtend) noRequest (requestsBatched sdk kp h n)"
    by (rule closed_mono[OF closed_noRequest]) (rule sendCall_not_config)
qed (simp_all add: noRequest_snoc noRequest_batched)

lemma lookup_lutOut:
  "triple h noRequest (handleLookupTables sdk kp mint rs)
     (\<lambda>luts tr. noRequest tr \<and> lutOut sdk kp h mint rs luts tr) (requestsBatched sdk kp h n)"
proof (rule triple_post[OF lookup_noRequest])
  fix tr x tr'
  assume run: "handleLookupTables sdk kp mint rs (h @ tr) = (Inr x, h @ tr')"
  show "lutOut sdk kp h mint rs x tr'"
  proof (cases "15 < length rs")
    case True
    from handleLookupTables_returned[OF True run] True show ?thesis
      by (auto simp: lutOut_def)
  next
    case False
    with run handleLookupTables_small[of rs sdk kp mint "h @ tr"] show ?thesis
      by (simp add: lutOut_def)
  qed
qed

lemma launch_requestsBatched:
  "triple h noRequest (launchWithFeeShare sdk kp params)
     (\<lambda>_. requestsBatched sdk kp h (length (feeClaimers params)))
     (requestsBatched sdk kp h (length (feeClaimers params)))"
proof (rule triple_launch_steps[where
      ?I1.0 = "\<lambda>mint rs luts tr. noRequest tr \<and> lutOut sdk kp h mint rs luts tr"])
  let ?n = "length (feeClaimers params)"
  show "closed preCall noRequest (requestsBatched sdk kp h ?n)"
    by (rule closed_mono[OF closed_noRequest]) (rule preCall_not_config)
  show "closed launchCall (requestsBatched sdk kp h ?n) (requestsBatched sdk kp h ?n)"
    by (rule closed_mono[OF closed_requestsBatched]) (rule launchCall_not_config)
  show "\<And>mint rs. triple h noRequest (handleLookupTables sdk kp mint rs)
          (\<lambda>luts tr. noRequest tr \<and> lutOut sdk kp h mint rs luts tr) (requestsBatched sdk kp h ?n)"
    by (rule lookup_lutOut)
  show "triple h (\<lambda>tr. noRequest tr \<and> lutOut sdk kp h mint rs luts tr)
          (createFeeConfig sdk kp
             \<lparr>payer = publicKey kp, baseMint = mint, configClaimers = rs,
              partner = None, partnerConfig = None, additionalLookupTables = luts\<rparr>)
          (\<lambda>_. requestsBatched sdk kp h ?n) (requestsBatched sdk kp h ?n)"
    if kept: "list_all2 keptShare (feeClaimers params) rs" for mint rs luts
  proof (rule triple_createFeeConfig[OF closed_mono[OF closed_requestsBatched],
          where I = "\<lambda>tr. noRequest tr \<and> lutOut sdk kp h mint rs luts tr"])
    from kept have len: "length rs = ?n" by (simp add: list_all2_lengthD)
    show "\<And>c. configCall c \<Longrightarrow> \<not> configCreateCall c" by (rule configCall_not_config)
    show "\<And>c. configCall c \<Longrightarrow> configCall c" .
    show "\<And>tr. noRequest tr \<and> lutOut sdk kp h mint rs luts tr \<Longrightarrow>
          requestsBatched sdk kp h ?n
            (tr @ [Ev (CreateBagsFeeShareConfig
                        \<lparr>payer = publicKey kp, baseMint = mint, configClaimers = rs,
                         partner = None, partnerConfig = None, additionalLookupTables = luts\<rparr>) True])"
      using len by (simp add: request_after_lookup)
    show "\<And>tr. noRequest tr \<and> lutOut sdk kp h mint rs luts tr \<Longrightarrow>
          requestsBatched sdk kp h ?n
            (tr @ [Ev (CreateBagsFeeShareConfig
                        \<lparr>payer = publicKey kp, baseMint = mint, configClaimers = rs,
                         partner = None, partnerConfig = None, additionalLookupTables = luts\<rparr>) False])"
      using len by (simp add: request_after_lookup)
  qed
qed

text \<open>
  Claim C2. The lookup-table step asks for the lookup-table plan, as its first call, if
  and only if there are more than 15 resolved recipients. With 15 or fewer it returns
  \<^verbatim>\<open>undefined\<close> at once, without any call. With more than 15: when the plan request
  throws, the step throws that error after this one call; when the plan request returns,
  the creation transaction of the plan is always submitted next, and whenever the step
  returns, it returns the table addresses of the plan after the completed step (plan,
  creation, wait, every extension, all returned). In a whole launch, any call of the
  lookup-table step means that the request had more than 15 fee claimers, and every
  config request of the run is batched with more than 15 fee claimers (a completed
  lookup-table step before it, whose table addresses it carries) and carries no lookup
  table with 15 or fewer.
\<close>

theorem lookup_tables_iff_more_than_15:
  "((\<exists>b tr. snd (handleLookupTables sdk kp mint rs h)
              = h @ Ev (GetConfigCreationLookupTableTransactions (publicKey kp) mint rs) b # tr)
      = (15 < length rs))
   \<and> (length rs \<le> 15 \<longrightarrow> handleLookupTables sdk kp mint rs h = (Inr None, h))
   \<and> (15 < length rs \<longrightarrow>
        (\<forall>msg. getConfigCreationLookupTableTransactions sdk h (publicKey kp) mint rs = Inl msg \<longrightarrow>
           handleLookupTables sdk kp mint rs h =
             (Inl (SdkError msg),
              h @ [Ev (GetConfigCreationLookupTableTransactions (publicKey kp) mint rs) False])) \<and>
        (\<forall>lut. getConfigCreationLookupTableTransactions sdk h (publicKey kp) mint rs = Inr lut \<longrightarrow>
           (\<exists>b tr. snd (handleLookupTables sdk kp mint rs h) =
              h @ Ev (GetConfigCreationLookupTableTransactions (publicKey kp) mint rs) True
                # Ev (SignAndSendTransaction LutCreation (creationTransaction lut) None) b # tr) \<and>
           (\<forall>x. fst (handleLookupTables sdk kp mint rs h) = Inr x \<longrightarrow>
              x = Some (lutAddresses lut) \<and>
              snd (handleLookupTables sdk kp mint rs h) = h @ lutEvents kp mint rs lut)))
   \<and> (\<exists>tr. snd (launchWithFeeShare sdk kp params h) = h @ tr \<and>
          (list_ex isLutEvent tr \<longrightarrow> 15 < length (feeClaimers params)) \<and>
          (\<forall>ps b. Ev (CreateBagsFeeShareConfig ps) b \<in> set tr \<longrightarrow>
             (15 < length (feeClaimers params) \<longrightarrow> batched sdk kp h tr ps) \<and>
             (length (feeClaimers params) \<le> 15 \<longrightarrow> additionalLookupTables ps = None)))"
proof (intro conjI impI allI)
  show "length rs \<le> 15 \<Longrightarrow> handleLookupTables sdk kp mint rs h = (Inr None, h)"
    by (rule handleLookupTables_small)
  show "(\<exists>b tr. snd (handleLookupTables sdk kp mint rs h)
              = h @ Ev (GetConfigCreationLookupTableTransactions (publicKey kp) mint rs) b # tr)
      = (15 < length rs)"
  proof (cases "15 < length rs")
    case True
    obtain r h' where run: "handleLookupTables sdk kp mint rs h = (r, h')"
      by (cases "handleLookupTables sdk kp mint rs h")
    from triple_run[OF lookup_starts[OF True] refl run]
    obtain tr where "h' = h @ tr" "startsWithPlan (publicKey kp) mint rs tr"
      by (cases r) auto
    with run True show ?thesis by (auto simp: startsWithPlan_def)
  next
    case False
    then show ?thesis using handleLookupTables_small[of rs sdk kp mint h] by simp
  qed
  show "handleLookupTables sdk kp mint rs h =
             (Inl (SdkError msg),
              h @ [Ev (GetConfigCreationLookupTableTransactions (publicKey kp) mint rs) False])"
    if "15 < length rs"
      and "getConfigCreationLookupTableTransactions sdk h (publicKey kp) mint rs = Inl msg" for msg
    using that by (rule handleLookupTables_plan_fails)
  show "\<exists>b tr. snd (handleLookupTables sdk kp mint rs h) =
              h @ Ev (GetConfigCreationLookupTableTransactions (publicKey kp) mint rs) True
                # Ev (SignAndSendTransaction LutCreation (creationTransaction lut) None) b # tr"
    if "15 < length rs"
      and "getConfigCreationLookupTableTransactions sdk h (publicKey kp) mint rs = Inr lut" for lut
    using that by (rule handleLookupTables_creates)
  show "x = Some (lutAddresses lut)"
    and "snd (handleLookupTables sdk kp mint rs h) = h @ lutEvents kp mint rs lut"
    if big: "15 < length rs"
      and plan: "getConfigCreationLookupTableTransactions sdk h (publicKey kp) mint rs = Inr lut"
      and ret: "fst (handleLookupTables sdk kp mint rs h) = Inr x" for lut x
  proof -
    from ret have run: "handleLookupTables sdk kp mint rs h = (Inr x, snd (handleLookupTables sdk kp mint rs h))"
      by (metis prod.collapse)
    from handleLookupTables_returned[OF big run] plan
    show "x = Some (lutAddresses lut)"
      and "snd (handleLookupTables sdk kp mint rs h) = h @ lutEvents kp mint rs lut"
      by auto
  qed
  obtain r h' where run: "launchWithFeeShare sdk kp params h = (r, h')"
    by (cases "launchWithFeeShare sdk kp params h")
  have "lutFree (length (feeClaimers params)) []" by (simp add: lutFree_def)
  from triple_run[OF launch_lutFree this run]
  obtain tr where tr: "h' = h @ tr" "lutFree (length (feeClaimers params)) tr"
    by (cases r) auto
  have "noRequest []" by (simp add: noRequest_def)
  from triple_run[OF launch_requestsBatched this run] tr(1)
  have "requestsBatched sdk kp h (length (feeClaimers params)) tr"
    by (cases r) auto
  with tr run
  show "\<exists>tr. snd (launchWithFeeShare sdk kp params h) = h @ tr \<and>
          (list_ex isLutEvent tr \<longrightarrow> 15 < length (feeClaimers params)) \<and>
          (\<forall>ps b. Ev (CreateBagsFeeShareConfig ps) b \<in> set tr \<longrightarrow>
             (15 < length (feeClaimers params) \<longrightarrow> batched sdk kp h tr ps) \<and>
             (length (feeClaimers params) \<le> 15 \<longrightarrow> additionalLookupTables ps = None))"
    by (auto simp: lutFree_def list_ex_iff list_all_iff requestsBatched_def)
qed

theorem lookup_tables_iff_more_than_15_witness:
  "15 < length sixteenResolved
   \<and> getConfigCreationLookupTableTransactions demoSdk [] (publicKey demoKeypair) ''Mint'' sixteenResolved
       = Inr \<lparr>creationTransaction = demoTx ''lut-create'',
              extendTransactions = [demoTx ''lut-extend-1'', demoTx ''lut-extend-2''],
              lutAddresses = [''Lut'']\<rparr>
   \<and> handleLookupTables demoSdk demoKeypair ''Mint'' sixteenResolved []
       = (Inr (Some [''Lut'']),
          [Ev (GetConfigCreationLookupTableTransactions ''Creator'' ''Mint'' sixteenResolved) True,
           Ev (SignAndSendTransaction LutCreation (demoTx ''lut-create'') None) True,
           Ev (WaitForSlotsToPass 1) True,
           Ev (SignAndSendTransaction LutExtend (demoTx ''lut-extend-1'') None) True,
           Ev (SignAndSendTransaction LutExtend (demoTx ''lut-extend-2'') None) True])
   \<and> length (take 15 sixteenResolved) = 15
   \<and> handleLookupTables demoSdk demoKeypair ''Mint'' (take 15 sixteenResolved) [] = (Inr None, [])
   \<and> launchWithFeeShare demoSdk demoKeypair (demoParams sixteenClaimers) []
       = (Inr \<lparr>resultMint = ''Mint'', resultMetadata = ''ipfs://metadata'', bundleId = ''bundle''\<rparr>,
          sixteenTrace)
   \<and> 15 < length (feeClaimers (demoParams sixteenClaimers))
   \<and> list_ex isLutEvent sixteenTrace
   \<and> Ev (CreateBagsFeeShareConfig
           \<lparr>payer = ''Creator'', baseMint = ''Mint'', configClaimers = sixteenResolved,
            partner = None, partnerConfig = None, additionalLookupTables = Some [''Lut'']\<rparr>) True
       \<in> set sixteenTrace
   \<and> batched demoSdk demoKeypair [] sixteenTrace
        \<lparr>payer = ''Creator'', baseMint = ''Mint'', configClaimers = sixteenResolved,
         partner = None, partnerConfig = None, additionalLookupTables = Some [''Lut'']\<rparr>
   \<and> handleLookupTables
        (demoSdk\<lparr>getConfigCreationLookupTableTransactions := \<lambda>h p m rs. Inl (Some ''Too many requests'')\<rparr>)
        demoKeypair ''Mint'' sixteenResolved []
       = (Inl (SdkError (Some ''Too many requests'')),
          [Ev (GetConfigCreationLookupTableTransactions ''Creator'' ''Mint'' sixteenResolved) False])"
proof -
  let ?lut = "\<lparr>creationTransaction = demoTx ''lut-create'',
              extendTransactions = [demoTx ''lut-extend-1'', demoTx ''lut-extend-2''],
              lutAddresses = [''Lut'']\<rparr>"
  let ?ps = "\<lparr>payer = ''Creator'', baseMint = ''Mint'', configClaimers = sixteenResolved,
         partner = None, partnerConfig = None, additionalLookupTables = Some [''Lut'']\<rparr>"
  note at16 = lookup_tables_iff_more_than_15[of demoSdk demoKeypair "''Mint''" sixteenResolved "[]"
      "demoParams sixteenClaimers"]
  note at15 = lookup_tables_iff_more_than_15[of demoSdk demoKeypair "''Mint''" "take 15 sixteenResolved" "[]"
      "demoParams sixteenClaimers"]
  note at16_failing = lookup_tables_iff_more_than_15[of
      "demoSdk\<lparr>getConfigCreationLookupTableTransactions := \<lambda>h p m rs. Inl (Some ''Too many requests'')\<rparr>"
      demoKeypair "''Mint''" sixteenResolved "[]" "demoParams sixteenClaimers"]
  have len: "length sixteenResolved = 16"
    by (simp add: sixteenResolved_def sixteenClaimers_def)
  have plan: "getConfigCreationLookupTableTransactions demoSdk [] (publicKey demoKeypair) ''Mint''
      sixteenResolved = Inr ?lut"
    by (simp add: demoSdk_def)
  have ret: "fst (handleLookupTables demoSdk demoKeypair ''Mint'' sixteenResolved []) = Inr (Some [''Lut''])"
    by (simp add: handleLookupTables_def BAGS_FEE_SHARE_V2_MAX_CLAIMERS_NON_LUT_def len
        bindP_def callSdk_def returnP_def signAndSend_def demoSdk_def demoTx_def)
  from at16 len plan ret
  have "snd (handleLookupTables demoSdk demoKeypair ''Mint'' sixteenResolved [])
          = [] @ lutEvents demoKeypair ''Mint'' sixteenResolved ?lut"
    by simp
  with ret have step: "handleLookupTables demoSdk demoKeypair ''Mint'' sixteenResolved []
       = (Inr (Some [''Lut'']),
          [Ev (GetConfigCreationLookupTableTransactions ''Creator'' ''Mint'' sixteenResolved) True,
           Ev (SignAndSendTransaction LutCreation (demoTx ''lut-create'') None) True,
           Ev (WaitForSlotsToPass 1) True,
           Ev (SignAndSendTransaction LutExtend (demoTx ''lut-extend-1'') None) True,
           Ev (SignAndSendTransaction LutExtend (demoTx ''lut-extend-2'') None) True])"
    by (simp add: lutEvents_def demoKeypair_def prod_eq_iff)
  from at15 len
  have none: "handleLookupTables demoSdk demoKeypair ''Mint'' (take 15 sixteenResolved) [] = (Inr None, [])"
    by simp
  have big: "15 < length (feeClaimers (demoParams sixteenClaimers))"
    by (simp add: demoParams_def sixteenClaimers_def)
  have mem: "Ev (CreateBagsFeeShareConfig ?ps) True \<in> set sixteenTrace"
    by (simp add: sixteenTrace_def)
  from at16 obtain tr where tr: "snd (launchWithFeeShare demoSdk demoKeypair (demoParams sixteenClaimers) []) = [] @ tr"
    and all: "\<forall>ps b. Ev (CreateBagsFeeShareConfig ps) b \<in> set tr \<longrightarrow>
             (15 < length (feeClaimers (demoParams sixteenClaimers)) \<longrightarrow> batched demoSdk demoKeypair [] tr ps) \<and>
             (length (feeClaimers (demoParams sixteenClaimers)) \<le> 15 \<longrightarrow> additionalLookupTables ps = None)"
    by blast
  from tr have "tr = sixteenTrace" by (simp add: demo_sixteen_run)
  with all mem big have bat: "batched demoSdk demoKeypair [] sixteenTrace ?ps" by blast
  have ev: "list_ex isLutEvent sixteenTrace" by (simp add: sixteenTrace_def)
  from at16_failing len
  have thrown: "handleLookupTables
        (demoSdk\<lparr>getConfigCreationLookupTableTransactions := \<lambda>h p m rs. Inl (Some ''Too many requests'')\<rparr>)
        demoKeypair ''Mint'' sixteenResolved []
       = (Inl (SdkError (Some ''Too many requests'')),
          [Ev (GetConfigCreationLookupTableTransactions ''Creator'' ''Mint'' sixteenResolved) False])"
    by (simp add: demoKeypair_def)
  from len plan step none demo_sixteen_run big ev mem bat thrown show ?thesis by simp
qed

section \<open>The launch only after the completed config registration\<close>

lemma map_filter_append: "List.map_filter f (xs @ ys) = List.map_filter f xs @ List.map_filter f ys"
  by (simp add: List.map_filter_def)

lemma bindP_returned:
  "bindP m f h = (Inr y, h') \<Longrightarrow> \<exists>x h1. m h = (Inr x, h1) \<and> f x h1 = (Inr y, h')"
  by (auto simp: bindP_def split: prod.splits sum.splits)

lemma sendWithJito_returned:
  assumes "sendWithJito sdk kp s txs h = (Inr x, h')"
  shows "\<exists>b pk n bh tipTx.
           h' = h @ [Ev GetJitoRecentFees b, Ev (CreateTipTransaction pk n bh) True,
                     Ev (SendBundleAndConfirm s (map (sign kp) (tipTx # txs))) True]"
proof -
  from assms obtain t ts where txs: "txs = t # ts" and bh: "recentBlockhash t \<noteq> []"
    by (cases txs) (auto simp: sendWithJito_def throwP_def split: if_splits)
  obtain n h1 where tip: "jitoTip sdk h = (Inr n, h1)" and h1: "\<exists>b. h1 = h @ [Ev GetJitoRecentFees b]"
    by (cases "getJitoRecentFees sdk h")
       (auto simp: jitoTip_def catchP_def bindP_def callSdk_def returnP_def)
  from assms txs bh tip obtain tipTx h2 where
    t2: "callSdk (CreateTipTransaction (publicKey kp) n (recentBlockhash t))
           (\<lambda>h. createTipTransaction sdk h (publicKey kp) n (recentBlockhash t)) h1 = (Inr tipTx, h2)"
    and t3: "callSdk (SendBundleAndConfirm s (map (sign kp) (tipTx # txs)))
           (\<lambda>h. sendBundleAndConfirm sdk h (map (sign kp) (tipTx # txs))) h2 = (Inr x, h')"
    by (auto simp: sendWithJito_def bindP_def split: prod.splits sum.splits)
  from t2 have h2: "h2 = h1 @ [Ev (CreateTipTransaction (publicKey kp) n (recentBlockhash t)) True]"
    by (auto simp: callSdk_def split: sum.splits)
  from t3 have "h' = h2 @ [Ev (SendBundleAndConfirm s (map (sign kp) (tipTx # txs))) True]"
    by (auto simp: callSdk_def split: sum.splits)
  with h1 h2 show ?thesis by auto
qed

lemma bundles_returned:
  "forEachP (\<lambda>bundle. bindP (sendWithJito sdk kp ConfigBundle bundle) (\<lambda>_. returnP ())) bs h = (Inr u, h')
   \<Longrightarrow> \<exists>mid. h' = h @ mid \<and>
        List.map_filter configSubmitted mid = map (\<lambda>bundle. Inl (map (sign kp) bundle)) bs \<and>
        list_all okOrFees mid \<and> \<not> list_ex isLaunchSubmission mid"
proof (induction bs arbitrary: h)
  case Nil
  then show ?case by (simp add: returnP_def List.map_filter_def)
next
  case (Cons bd bs)
  from Cons.prems have "bindP (bindP (sendWithJito sdk kp ConfigBundle bd) (\<lambda>_. returnP ()))
      (\<lambda>_. forEachP (\<lambda>bundle. bindP (sendWithJito sdk kp ConfigBundle bundle) (\<lambda>_. returnP ())) bs) h
      = (Inr u, h')" by simp
  from bindP_returned[OF this] obtain u1 h1 where
    first: "bindP (sendWithJito sdk kp ConfigBundle bd) (\<lambda>_. returnP ()) h = (Inr u1, h1)"
    and rest: "forEachP (\<lambda>bundle. bindP (sendWithJito sdk kp ConfigBundle bundle) (\<lambda>_. returnP ())) bs h1
                 = (Inr u, h')"
    by blast
  from bindP_returned[OF first] obtain x where
    one: "sendWithJito sdk kp ConfigBundle bd h = (Inr x, h1)"
    by (auto simp: returnP_def)
  from sendWithJito_returned[OF one] obtain b pk n bh tipTx where
    h1: "h1 = h @ [Ev GetJitoRecentFees b, Ev (CreateTipTransaction pk n bh) True,
                   Ev (SendBundleAndConfirm ConfigBundle (map (sign kp) (tipTx # bd))) True]"
    by blast
  from Cons.IH[OF rest] obtain mid where
    mid: "h' = h1 @ mid"
      "List.map_filter configSubmitted mid = map (\<lambda>bundle. Inl (map (sign kp) bundle)) bs"
      "list_all okOrFees mid" "\<not> list_ex isLaunchSubmission mid"
    by blast
  let ?one = "[Ev GetJitoRecentFees b, Ev (CreateTipTransaction pk n bh) True,
               Ev (SendBundleAndConfirm ConfigBundle (map (sign kp) (tipTx # bd))) True]"
  have "List.map_filter configSubmitted ?one = [Inl (map (sign kp) bd)]"
    by (simp add: List.map_filter_def)
  with mid h1 have "h' = h @ (?one @ mid) \<and>
        List.map_filter configSubmitted (?one @ mid)
          = map (\<lambda>bundle. Inl (map (sign kp) bundle)) (bd # bs) \<and>
        list_all okOrFees (?one @ mid) \<and> \<not> list_ex isLaunchSubmission (?one @ mid)"
    by (simp add: map_filter_append)
  then show ?case by blast
qed

lemma sendConfigTransactions_returned:
  assumes "sendConfigTransactions sdk kp cr h = (Inr u, h')"
  shows "\<exists>mid. h' = h @ mid \<and> configSent kp cr mid"
proof -
  let ?bs = "case bundles cr of None \<Rightarrow> [] | Some bs \<Rightarrow> bs"
  let ?ts = "case transactions cr of None \<Rightarrow> [] | Some ts \<Rightarrow> ts"
  from bindP_returned[OF assms[unfolded sendConfigTransactions_def]] obtain h1 where
    b: "forEachP (\<lambda>bundle. bindP (sendWithJito sdk kp ConfigBundle bundle) (\<lambda>_. returnP ())) ?bs h
          = (Inr (), h1)"
    and t: "forEachP (signAndSend sdk ConfigTransaction) ?ts h1 = (Inr u, h')"
    by auto
  from bundles_returned[OF b] obtain mid where
    mid: "h1 = h @ mid"
      "List.map_filter configSubmitted mid = map (\<lambda>bundle. Inl (map (sign kp) bundle)) ?bs"
      "list_all okOrFees mid" "\<not> list_ex isLaunchSubmission mid"
    by blast
  let ?sent = "map (\<lambda>tx. Ev (SignAndSendTransaction ConfigTransaction tx None) True) ?ts"
  have sent: "List.map_filter configSubmitted ?sent = map Inr ?ts"
    "list_all okOrFees ?sent" "\<not> list_ex isLaunchSubmission ?sent"
    by (induction ?ts) (simp_all add: List.map_filter_def list_all_iff list_ex_iff)
  from sends_returned[OF t] mid sent have "h' = h @ (mid @ ?sent) \<and> configSent kp cr (mid @ ?sent)"
    by (simp add: configSent_def map_filter_append)
  then show ?thesis by blast
qed

lemma createFeeConfig_returned:
  assumes "createFeeConfig sdk kp ps h = (Inr cr, h')"
  shows "createBagsFeeShareConfig sdk h ps = Inr cr \<and>
         (\<exists>mid. h' = h @ Ev (CreateBagsFeeShareConfig ps) True # mid \<and> configSent kp cr mid)"
proof -
  from bindP_returned[OF assms[unfolded createFeeConfig_def]] obtain cr' h1 where
    c0: "callSdk (CreateBagsFeeShareConfig ps) (\<lambda>h. createBagsFeeShareConfig sdk h ps) h = (Inr cr', h1)"
    and s0: "bindP (sendConfigTransactions sdk kp cr') (\<lambda>_. returnP cr') h1 = (Inr cr, h')"
    by blast
  from bindP_returned[OF s0] have "cr' = cr" and s: "sendConfigTransactions sdk kp cr' h1 = (Inr (), h')"
    by (auto simp: returnP_def)
  with c0 have c: "callSdk (CreateBagsFeeShareConfig ps) (\<lambda>h. createBagsFeeShareConfig sdk h ps) h = (Inr cr, h1)"
    and s: "sendConfigTransactions sdk kp cr h1 = (Inr (), h')"
    by simp_all
  from c have c': "createBagsFeeShareConfig sdk h ps = Inr cr"
    "h1 = h @ [Ev (CreateBagsFeeShareConfig ps) True]"
    by (auto simp: callSdk_def split: sum.splits)
  from sendConfigTransactions_returned[OF s] c' show ?thesis by auto
qed

lemma configCompleted_snoc: "configCompleted sdk kp h tr \<Longrightarrow> configCompleted sdk kp h (tr @ [e])"
  unfolding configCompleted_def
proof -
  assume "\<exists>pre ps cr mid post.
        tr = pre @ Ev (CreateBagsFeeShareConfig ps) True # mid @ post \<and>
        createBagsFeeShareConfig sdk (h @ pre) ps = Inr cr \<and>
        configSent kp cr mid \<and> \<not> list_ex isLaunchSubmission pre"
  then obtain pre ps cr mid post where
    "tr = pre @ Ev (CreateBagsFeeShareConfig ps) True # mid @ post"
    "createBagsFeeShareConfig sdk (h @ pre) ps = Inr cr"
    "configSent kp cr mid" "\<not> list_ex isLaunchSubmission pre" by blast
  then have "tr @ [e] = pre @ Ev (CreateBagsFeeShareConfig ps) True # mid @ (post @ [e]) \<and>
        createBagsFeeShareConfig sdk (h @ pre) ps = Inr cr \<and>
        configSent kp cr mid \<and> \<not> list_ex isLaunchSubmission pre" by simp
  then show "\<exists>pre ps cr mid post.
        tr @ [e] = pre @ Ev (CreateBagsFeeShareConfig ps) True # mid @ post \<and>
        createBagsFeeShareConfig sdk (h @ pre) ps = Inr cr \<and>
        configSent kp cr mid \<and> \<not> list_ex isLaunchSubmission pre" by blast
qed

lemma launchSubmission_call: "isLaunchSubmission (Ev c b) \<Longrightarrow> launchCall c \<and> \<not> configCall c \<and> \<not> preCall c"
  by (cases c) (auto elim: isLaunchSubmission.elims)

lemma noLaunch_snoc: "noLaunch tr \<Longrightarrow> \<not> isLaunchSubmission (Ev c b) \<Longrightarrow> noLaunch (tr @ [Ev c b])"
  by (simp add: noLaunch_def)

lemma noLaunch_after: "noLaunch tr \<Longrightarrow> launchAfterConfig sdk kp h tr"
  by (simp add: noLaunch_def launchAfterConfig_def)

lemma closed_noLaunch:
  "closed (\<lambda>c. \<forall>b. \<not> isLaunchSubmission (Ev c b)) noLaunch (launchAfterConfig sdk kp h)"
  by (simp add: closed_def noLaunch_snoc noLaunch_after)

lemma closed_configCompleted:
  "closed fp (configCompleted sdk kp h) (launchAfterConfig sdk kp h)"
  by (simp add: closed_def configCompleted_snoc launchAfterConfig_def)

lemma preCall_noLaunch: "preCall c \<Longrightarrow> \<forall>b. \<not> isLaunchSubmission (Ev c b)"
  by (cases c) simp_all

lemma configCall_noLaunch: "configCall c \<Longrightarrow> \<forall>b. \<not> isLaunchSubmission (Ev c b)"
  by (cases c) auto

lemma sendCall_noLaunch: "sendCall s c \<Longrightarrow> \<forall>b. \<not> isLaunchSubmission (Ev c b)"
  by (cases c) simp_all

lemma lookup_noLaunch:
  "triple h noLaunch (handleLookupTables sdk kp mint rs) (\<lambda>_. noLaunch) (launchAfterConfig sdk kp h)"
proof (rule triple_handleLookupTables[where ?I1.0 = noLaunch and ?I2.0 = noLaunch
        and ?I3.0 = noLaunch])
  show "closed (sendCall LutExtend) noLaunch (launchAfterConfig sdk kp h)"
    by (rule closed_mono[OF closed_noLaunch]) (rule sendCall_noLaunch)
qed (simp_all add: noLaunch_snoc noLaunch_after)

lemma config_completed:
  "triple h noLaunch (createFeeConfig sdk kp ps) (\<lambda>_. configCompleted sdk kp h)
     (launchAfterConfig sdk kp h)"
proof -
  have cl: "closed configCall noLaunch (launchAfterConfig sdk kp h)"
    by (rule closed_mono[OF closed_noLaunch]) (rule configCall_noLaunch)
  have base: "triple h noLaunch (createFeeConfig sdk kp ps) (\<lambda>_. noLaunch) (launchAfterConfig sdk kp h)"
    by (rule triple_createFeeConfig[OF cl, where I = noLaunch])
       (simp_all add: noLaunch_snoc noLaunch_after)
  have "triple h noLaunch (createFeeConfig sdk kp ps)
          (\<lambda>cr tr'. noLaunch tr' \<and> configCompleted sdk kp h tr') (launchAfterConfig sdk kp h)"
  proof (rule triple_post[OF base])
    fix tr cr tr'
    assume P: "noLaunch tr" and run: "createFeeConfig sdk kp ps (h @ tr) = (Inr cr, h @ tr')"
    from createFeeConfig_returned[OF run] obtain mid where
      "createBagsFeeShareConfig sdk (h @ tr) ps = Inr cr"
      "tr' = tr @ Ev (CreateBagsFeeShareConfig ps) True # mid @ []" "configSent kp cr mid"
      by auto
    with P show "configCompleted sdk kp h tr'"
      unfolding configCompleted_def noLaunch_def by blast
  qed
  then show ?thesis by (rule triple_weaken) simp_all
qed

lemma launch_completed:
  "triple h noLaunch (launchWithFeeShare sdk kp params) (\<lambda>_. configCompleted sdk kp h)
     (launchAfterConfig sdk kp h)"
proof (rule triple_launch_steps[where ?I1.0 = "\<lambda>mint rs luts. noLaunch"])
  show "closed preCall noLaunch (launchAfterConfig sdk kp h)"
    by (rule closed_mono[OF closed_noLaunch]) (rule preCall_noLaunch)
qed (simp_all add: lookup_noLaunch config_completed closed_configCompleted)

lemma launchToken_completed:
  "triple h noLaunch (launchToken sdk kp params) (\<lambda>_. configCompleted sdk kp h)
     (launchAfterConfig sdk kp h)"
proof -
  have meta: "\<And>info. triple h noLaunch
      (callSdk (CreateTokenInfoAndMetadata info) (\<lambda>h. createTokenInfoAndMetadata sdk h info))
      (\<lambda>_. noLaunch) (launchAfterConfig sdk kp h)"
    by (rule triple_call_closed[OF closed_noLaunch]) simp_all
  have la: "\<And>mint metadata buySol cfgKey.
      triple h (configCompleted sdk kp h) (sendLaunch sdk kp mint metadata buySol cfgKey)
        (\<lambda>_. configCompleted sdk kp h) (launchAfterConfig sdk kp h)"
    by (rule triple_sendLaunch[OF closed_configCompleted])
  show ?thesis
    unfolding launchToken_def
    apply (rule triple_bindP[where R = "\<lambda>_. noLaunch"], rule meta)
    apply (simp only: split_paired_all prod.case)
    apply (rule triple_bindP[where R = "\<lambda>_. configCompleted sdk kp h"], rule config_completed)
    apply (rule la)
    done
qed

text \<open>
  Claim C4. In every run of \<^verbatim>\<open>launchWithFeeShare\<close> and of \<^verbatim>\<open>launchToken\<close>, the calls
  come in the order of the stages: table creation, wait, table extensions, config
  registration, launch. A launch bundle is submitted only in a run whose config
  registration completed before: the config request returned, every bundle and every
  transaction of its answer was then submitted and accepted, in order, and no call in
  between threw (the fee estimate apart, whose failure the script catches).
\<close>

theorem launch_operations_in_order:
  "(\<exists>tr. snd (launchWithFeeShare sdk kp params h) = h @ tr \<and> launchOrdered tr \<and>
          (list_ex isLaunchSubmission tr \<longrightarrow> configCompleted sdk kp h tr)) \<and>
   (\<exists>tr. snd (launchToken sdk kp tokenParams h) = h @ tr \<and> launchOrdered tr \<and>
          (list_ex isLaunchSubmission tr \<longrightarrow> configCompleted sdk kp h tr))"
proof
  have nl: "noLaunch []" by (simp add: noLaunch_def)
  obtain r h' where run: "launchWithFeeShare sdk kp params h = (r, h')"
    by (cases "launchWithFeeShare sdk kp params h")
  from triple_run[OF launch_ordered invL_Nil run]
  obtain tr where tr: "h' = h @ tr" "launchOrdered tr"
    by (cases r) (auto intro: invL_exit)
  from triple_run[OF launch_completed nl run] tr(1)
  have "launchAfterConfig sdk kp h tr"
    by (cases r) (auto simp: launchAfterConfig_def)
  with tr run
  show "\<exists>tr. snd (launchWithFeeShare sdk kp params h) = h @ tr \<and> launchOrdered tr \<and>
          (list_ex isLaunchSubmission tr \<longrightarrow> configCompleted sdk kp h tr)"
    by (auto simp: launchAfterConfig_def)
next
  have nl: "noLaunch []" by (simp add: noLaunch_def)
  obtain r h' where run: "launchToken sdk kp tokenParams h = (r, h')"
    by (cases "launchToken sdk kp tokenParams h")
  from triple_run[OF launchToken_ordered invL_Nil run]
  obtain tr where tr: "h' = h @ tr" "launchOrdered tr"
    by (cases r) (auto intro: invL_exit)
  from triple_run[OF launchToken_completed nl run] tr(1)
  have "launchAfterConfig sdk kp h tr"
    by (cases r) (auto simp: launchAfterConfig_def)
  with tr run
  show "\<exists>tr. snd (launchToken sdk kp tokenParams h) = h @ tr \<and> launchOrdered tr \<and>
          (list_ex isLaunchSubmission tr \<longrightarrow> configCompleted sdk kp h tr)"
    by (auto simp: launchAfterConfig_def)
qed

theorem launch_operations_in_order_witness:
  "launchWithFeeShare demoSdk demoKeypair (demoParams sixteenClaimers) []
     = (Inr \<lparr>resultMint = ''Mint'', resultMetadata = ''ipfs://metadata'', bundleId = ''bundle''\<rparr>,
        sixteenTrace)
   \<and> list_ex isLaunchSubmission sixteenTrace
   \<and> stages sixteenTrace = [0, 1, 1, 2, 3, 3, 4, 4, 5, 5]
   \<and> launchOrdered sixteenTrace
   \<and> configCompleted demoSdk demoKeypair [] sixteenTrace
   \<and> launchToken demoSdk demoKeypair demoTokenParams []
     = (Inr \<lparr>resultMint = ''Mint'', resultMetadata = ''ipfs://metadata'', bundleId = ''bundle''\<rparr>,
        tokenTrace)
   \<and> list_ex isLaunchSubmission tokenTrace
   \<and> stages tokenTrace = [0, 4, 4, 5, 5]
   \<and> launchOrdered tokenTrace
   \<and> configCompleted demoSdk demoKeypair [] tokenTrace"
proof -
  have a: "list_ex isLaunchSubmission sixteenTrace" by (simp add: sixteenTrace_def)
  have b: "list_ex isLaunchSubmission tokenTrace" by (simp add: tokenTrace_def)
  have c: "stages sixteenTrace = [0, 1, 1, 2, 3, 3, 4, 4, 5, 5]"
    by (simp add: sixteenTrace_def stages_def List.map_filter_def)
  have d: "stages tokenTrace = [0, 4, 4, 5, 5]"
    by (simp add: tokenTrace_def stages_def List.map_filter_def)
  from launch_operations_in_order[of demoSdk demoKeypair "demoParams sixteenClaimers" "[]" demoTokenParams] a b c d
  show ?thesis by (simp add: demo_sixteen_run demo_token_run)
qed

section \<open>Why a launch with fee sharing fails\<close>

lemma tripleED:
  "tripleE h0 P m Q E \<Longrightarrow> P tr \<Longrightarrow>
     (case m (h0 @ tr) of
        (Inr x, h') \<Rightarrow> \<exists>tr'. h' = h0 @ tr' \<and> Q x tr'
      | (Inl e, h') \<Rightarrow> \<exists>tr'. h' = h0 @ tr' \<and> E e tr')"
  by (simp add: tripleE_def)






lemma tripleE_weaken:
  assumes "tripleE h0 P m Q E" and "\<And>tr. P' tr \<Longrightarrow> P tr" and "\<And>x tr. Q x tr \<Longrightarrow> Q' x tr"
  shows "tripleE h0 P' m Q' E"
  unfolding tripleE_def
proof (intro allI impI)
  fix tr assume "P' tr"
  then have "P tr" by (rule assms(2))
  from tripleED[OF assms(1) this]
  show "case m (h0 @ tr) of
           (Inr x, h') \<Rightarrow> \<exists>tr'. h' = h0 @ tr' \<and> Q' x tr'
         | (Inl e, h') \<Rightarrow> \<exists>tr'. h' = h0 @ tr' \<and> E e tr'"
    using assms(3) by (auto split: prod.splits sum.splits)
qed





















end
